theory Spec2Isabelle
  imports Main "HOL-Library.AList"
begin

section \<open>JavaScript strings\<close>

text \<open>
  A JavaScript string is a sequence of UTF-16 code units. A \<^typ>\<open>char\<close> of this
  development stands for one code unit below 256 (the Latin-1 range), so
  \<^term>\<open>length s\<close> is the \<^verbatim>\<open>.length\<close> of the string.
\<close>

definition is_space :: "char \<Rightarrow> bool" where
  \<comment> \<open>The regular expression class \<^verbatim>\<open>\s\<close>, which is also what \<^verbatim>\<open>trim()\<close> strips:
      TAB, LF, VT, FF, CR, space and the no-break space.\<close>
  "is_space c \<longleftrightarrow> of_char c \<in> {9, 10, 11, 12, 13, 32, 160 :: nat}"

definition lower_char :: "char \<Rightarrow> char" where
  \<comment> \<open>\<^verbatim>\<open>toLowerCase\<close> on one code unit: A-Z, and the Latin-1 capitals except the
      multiplication sign.\<close>
  "lower_char c =
     (let n = (of_char c :: nat)
      in if (65 \<le> n \<and> n \<le> 90) \<or> (192 \<le> n \<and> n \<le> 222 \<and> n \<noteq> 215)
         then char_of (n + 32) else c)"

definition toLowerCase :: "string \<Rightarrow> string" where
  "toLowerCase s = map lower_char s"

definition trim :: "string \<Rightarrow> string" where
  "trim s = rev (dropWhile is_space (rev (dropWhile is_space s)))"

definition is_keyword_char :: "char \<Rightarrow> bool" where
  \<comment> \<open>The characters kept by \<^verbatim>\<open>/[^a-z0-9\s-]/g\<close>.\<close>
  "is_keyword_char c \<longleftrightarrow>
     (let n = (of_char c :: nat)
      in (97 \<le> n \<and> n \<le> 122) \<or> (48 \<le> n \<and> n \<le> 57) \<or> is_space c \<or> c = CHR ''-'')"

definition strip_punctuation :: "string \<Rightarrow> string" where
  \<comment> \<open>\<^verbatim>\<open>.replace(/[^a-z0-9\s-]/g, " ")\<close>\<close>
  "strip_punctuation s = map (\<lambda>c. if is_keyword_char c then c else CHR '' '') s"

text \<open>
  \<^verbatim>\<open>s.split(/\s+/)\<close>: the pieces between the maximal runs of white space. A run at
  the start or at the end of the string leaves an empty piece there, and the empty
  string splits into one empty piece. \<open>cur\<close> is the piece being read, reversed;
  \<open>insep\<close> says that the previous character belonged to a separator.
\<close>

fun split_spaces_aux :: "bool \<Rightarrow> string \<Rightarrow> string \<Rightarrow> string list" where
  "split_spaces_aux insep cur [] = [rev cur]"
| "split_spaces_aux insep cur (c # cs) =
     (if is_space c
      then (if insep then split_spaces_aux True cur cs
            else rev cur # split_spaces_aux True [] cs)
      else split_spaces_aux False (c # cur) cs)"

definition split_spaces :: "string \<Rightarrow> string list" where
  "split_spaces s = split_spaces_aux False [] s"

definition slice0 :: "'a list \<Rightarrow> int \<Rightarrow> 'a list" where
  \<comment> \<open>\<^verbatim>\<open>xs.slice(0, count)\<close> for an integer \<open>count\<close>: a negative count is taken from
      the end.\<close>
  "slice0 xs count =
     (let n = int (length xs);
          final = (if count < 0 then max (n + count) 0 else min count n)
      in take (nat final) xs)"

section \<open>Term extractor (context-builder.ts)\<close>

definition STOP_WORDS :: "string list" where
  "STOP_WORDS =
   [''a'', ''an'', ''the'', ''is'', ''are'', ''was'', ''were'', ''be'', ''been'', ''being'',
    ''have'', ''has'', ''had'', ''do'', ''does'', ''did'', ''will'', ''would'', ''could'',
    ''should'', ''may'', ''might'', ''shall'', ''can'', ''need'', ''must'',
    ''i'', ''you'', ''he'', ''she'', ''it'', ''we'', ''they'', ''me'', ''him'', ''her'', ''us'', ''them'',
    ''my'', ''your'', ''his'', ''its'', ''our'', ''their'',
    ''this'', ''that'', ''these'', ''those'', ''what'', ''which'', ''who'', ''whom'',
    ''and'', ''but'', ''or'', ''nor'', ''not'', ''no'', ''so'', ''if'', ''then'', ''else'',
    ''for'', ''of'', ''in'', ''on'', ''at'', ''to'', ''by'', ''with'', ''from'', ''up'', ''out'',
    ''about'', ''into'', ''through'', ''during'', ''before'', ''after'', ''above'', ''below'',
    ''how'', ''when'', ''where'', ''why'', ''all'', ''each'', ''every'', ''both'',
    ''few'', ''more'', ''most'', ''other'', ''some'', ''such'', ''only'', ''same'',
    ''than'', ''too'', ''very'', ''just'', ''because'', ''as'', ''until'', ''while'',
    ''use'', ''using'', ''implement'', ''add'', ''create'', ''make'', ''get'', ''set'']"

definition candidateWords :: "string \<Rightarrow> string list" where
  \<comment> \<open>The constant \<^verbatim>\<open>words\<close> of \<^verbatim>\<open>extractSearchKeywords\<close>.\<close>
  "candidateWords prompt =
     filter (\<lambda>w. length w \<ge> 3 \<and> w \<notin> set STOP_WORDS)
       (split_spaces (strip_punctuation (toLowerCase prompt)))"

definition fallbackKeyword :: "string \<Rightarrow> string" where
  \<comment> \<open>\<^verbatim>\<open>prompt.trim().split(/\s+/)[0] || prompt\<close>: the empty string is falsy.\<close>
  "fallbackKeyword prompt =
     (case split_spaces (trim prompt) of
        [] \<Rightarrow> prompt
      | t # _ \<Rightarrow> if t = [] then prompt else t)"

definition scoreWords :: "string list \<Rightarrow> (string \<times> int) list" where
  \<comment> \<open>\<^verbatim>\<open>words.map((w, i) => ({word: w, score: w.length * 10 + (words.length - i)}))\<close>\<close>
  "scoreWords ws =
     map (\<lambda>(w, i). (w, int (length w) * 10 + (int (length ws) - int i)))
         (zip ws [0 ..< length ws])"

definition seenStep :: "(string \<times> int) list \<Rightarrow> (string \<times> int) \<Rightarrow> (string \<times> int) list" where
  \<comment> \<open>One round of the deduplication loop. \<open>seen\<close> is the \<^verbatim>\<open>Map\<close> in insertion order;
      \<^verbatim>\<open>seen.set\<close> replaces the value of a key in place and appends a new key.\<close>
  "seenStep seen ws =
     (case map_of seen (fst ws) of
        None \<Rightarrow> AList.update (fst ws) (snd ws) seen
      | Some existing \<Rightarrow>
          if snd ws > existing then AList.update (fst ws) (snd ws) seen else seen)"

definition dedupeWords :: "(string \<times> int) list \<Rightarrow> (string \<times> int) list" where
  "dedupeWords scored = foldl seenStep [] scored"

definition sortByScoreDesc :: "('a \<times> int) list \<Rightarrow> ('a \<times> int) list" where
  \<comment> \<open>\<^verbatim>\<open>.sort((a, b) => b[1] - a[1])\<close>, and \<^verbatim>\<open>.sort((a, b) => b.freq - a.freq)\<close> of
      \<^verbatim>\<open>searchKB\<close>: descending by the number in the second place; the sort is stable.\<close>
  "sortByScoreDesc xs = sort_key (\<lambda>p. - snd p) xs"

definition extractSearchKeywords :: "string \<Rightarrow> int \<Rightarrow> string list" where
  "extractSearchKeywords prompt count =
     (let ws = candidateWords prompt
      in if length ws = 0 then [fallbackKeyword prompt]
         else slice0 (map fst (sortByScoreDesc (dedupeWords (scoreWords ws)))) count)"

definition firstRawToken :: "string \<Rightarrow> string" where
  \<comment> \<open>Following the words of the specification, for comparison with
      \<^const>\<open>fallbackKeyword\<close>: the first white-space-delimited token of the raw input.\<close>
  "firstRawToken s = takeWhile (\<lambda>c. \<not> is_space c) (dropWhile is_space s)"

section \<open>Two-tier cache (intelligent-cache.ts)\<close>

datatype CacheNamespace = KB | Sessions | Search

fun namespace_name :: "CacheNamespace \<Rightarrow> string" where
  "namespace_name KB = ''kb''"
| "namespace_name Sessions = ''sessions''"
| "namespace_name Search = ''search''"

record 'v CacheEntry =
  entry_value :: 'v
  expiresAt :: int

record 'v DiskCacheFormat =
  version :: int
  entries :: "(string \<times> 'v CacheEntry) list"

text \<open>
  What \<^verbatim>\<open>readFile\<close> followed by \<^verbatim>\<open>JSON.parse\<close> makes of the file of a name space:
  the read throws (no file, or one that cannot be read), the parse throws, or the
  content has the declared type \<^verbatim>\<open>DiskCacheFormat\<close>. What \<^verbatim>\<open>JSON.stringify\<close> writes
  is read back as the same value.
\<close>

datatype 'v disk_file = NoFile | Unparsable | Parsed "'v DiskCacheFormat"

fun L1_TTLS :: "CacheNamespace \<Rightarrow> int" where
  "L1_TTLS KB = 10 * 60000"
| "L1_TTLS Sessions = 1 * 60000"
| "L1_TTLS Search = 5 * 60000"

fun L2_TTLS :: "CacheNamespace \<Rightarrow> int" where
  "L2_TTLS KB = 30 * 60000"
| "L2_TTLS Sessions = 5 * 60000"
| "L2_TTLS Search = 15 * 60000"

definition DEBOUNCE_MS :: int where
  "DEBOUNCE_MS = 2000"

definition cacheKey :: "(string \<Rightarrow> string) \<Rightarrow> CacheNamespace \<Rightarrow> string \<Rightarrow> string" where
  \<comment> \<open>\<open>md5hex\<close> is \<^verbatim>\<open>createHash("md5").update(key).digest("hex")\<close> of node:crypto,
      taken as a parameter.\<close>
  "cacheKey md5hex namespace key = namespace_name namespace @ '':'' @ md5hex key"

definition startsWith :: "string \<Rightarrow> string \<Rightarrow> bool" where
  "startsWith s p \<longleftrightarrow> take (length p) s = p"

text \<open>
  The state of one \<^verbatim>\<open>IntelligentCache\<close> together with the files it reads and writes.
  \<open>l1\<close> is the \<^verbatim>\<open>Map\<close> in insertion order; \<open>l2Timers\<close> holds the name spaces whose
  debounce timer is set and has not fired; \<open>disk\<close> gives the file of each name space.
\<close>

record 'v IntelligentCache =
  l1 :: "(string \<times> 'v CacheEntry) list"
  l2Dirty :: "CacheNamespace set"
  l2Timers :: "CacheNamespace set"
  l2Loaded :: "CacheNamespace set"
  disk :: "CacheNamespace \<Rightarrow> 'v disk_file"

definition new_cache :: "(CacheNamespace \<Rightarrow> 'v disk_file) \<Rightarrow> 'v IntelligentCache" where
  \<comment> \<open>\<^verbatim>\<open>new IntelligentCache()\<close> over the files \<open>d\<close>.\<close>
  "new_cache d = \<lparr>l1 = [], l2Dirty = {}, l2Timers = {}, l2Loaded = {}, disk = d\<rparr>"

definition loadL2 :: "'v IntelligentCache \<Rightarrow> CacheNamespace \<Rightarrow> 'v IntelligentCache" where
  "loadL2 c namespace =
     (if namespace \<in> l2Loaded c then c
      else c\<lparr>l2Loaded := insert namespace (l2Loaded c)\<rparr>)"

definition l2Get ::
  "'v IntelligentCache \<Rightarrow> CacheNamespace \<Rightarrow> string \<Rightarrow> int \<Rightarrow> 'v option \<times> 'v IntelligentCache" where
  \<comment> \<open>\<open>now\<close> is the reading of \<^verbatim>\<open>Date.now()\<close> in the expiry test.\<close>
  "l2Get c namespace ck now =
     (let c1 = loadL2 c namespace
      in (case disk c1 namespace of
            NoFile \<Rightarrow> (None, c1)
          | Unparsable \<Rightarrow> (None, c1)
          | Parsed parsed \<Rightarrow>
              if version parsed \<noteq> 1 then (None, c1)
              else (case map_of (entries parsed) ck of
                      None \<Rightarrow> (None, c1)
                    | Some entry \<Rightarrow>
                        if expiresAt entry \<le> now then (None, c1)
                        else (Some (entry_value entry), c1))))"

definition get ::
  "(string \<Rightarrow> string) \<Rightarrow> 'v IntelligentCache \<Rightarrow> CacheNamespace \<Rightarrow> string
     \<Rightarrow> int \<Rightarrow> int \<Rightarrow> int \<Rightarrow> 'v option \<times> 'v IntelligentCache" where
  \<comment> \<open>\<open>now1\<close>, \<open>now2\<close> and \<open>now3\<close> are the readings of \<^verbatim>\<open>Date.now()\<close> in the fast-tier
      test, in \<^verbatim>\<open>l2Get\<close> and at the promotion.\<close>
  "get md5hex c namespace key now1 now2 now3 =
     (let ck = cacheKey md5hex namespace key;
          l1Entry = map_of (l1 c) ck
      in if (case l1Entry of Some e \<Rightarrow> expiresAt e > now1 | None \<Rightarrow> False)
         then (map_option entry_value l1Entry, c)
         else
           (let c1 = (if l1Entry \<noteq> None then c\<lparr>l1 := AList.delete ck (l1 c)\<rparr> else c);
                (l2Value, c2) = l2Get c1 namespace ck now2
            in (case l2Value of
                  Some v \<Rightarrow>
                    (Some v,
                     c2\<lparr>l1 := AList.update ck
                              \<lparr>entry_value = v, expiresAt = now3 + L1_TTLS namespace\<rparr> (l1 c2)\<rparr>)
                | None \<Rightarrow> (None, c2))))"

definition scheduleL2Write :: "'v IntelligentCache \<Rightarrow> CacheNamespace \<Rightarrow> 'v IntelligentCache" where
  "scheduleL2Write c namespace =
     (if namespace \<in> l2Timers c then c
      else c\<lparr>l2Timers := insert namespace (l2Timers c)\<rparr>)"

definition set_entry ::
  "(string \<Rightarrow> string) \<Rightarrow> 'v IntelligentCache \<Rightarrow> CacheNamespace \<Rightarrow> string \<Rightarrow> 'v \<Rightarrow> int
     \<Rightarrow> 'v IntelligentCache" where
  \<comment> \<open>The method \<^verbatim>\<open>set\<close>.\<close>
  "set_entry md5hex c namespace key v now =
     (let ck = cacheKey md5hex namespace key;
          c1 = c\<lparr>l1 := AList.update ck
                     \<lparr>entry_value = v, expiresAt = now + L1_TTLS namespace\<rparr> (l1 c)\<rparr>;
          c2 = c1\<lparr>l2Dirty := insert namespace (l2Dirty c1)\<rparr>
      in scheduleL2Write c2 namespace)"

definition invalidate :: "'v IntelligentCache \<Rightarrow> CacheNamespace \<Rightarrow> bool \<Rightarrow> 'v IntelligentCache" where
  \<comment> \<open>\<open>rm_ok\<close> says whether \<^verbatim>\<open>rm(diskPath(namespace), {force: true})\<close> succeeds; when it
      throws, the error is ignored and the file stays.\<close>
  "invalidate c namespace rm_ok =
     (let prefix = namespace_name namespace @ '':'';
          c1 = c\<lparr>l1 := foldl (\<lambda>m key. if startsWith key prefix then AList.delete key m else m)
                           (l1 c) (map fst (l1 c))\<rparr>;
          c2 = (if rm_ok then c1\<lparr>disk := (disk c1)(namespace := NoFile)\<rparr> else c1)
      in c2\<lparr>l2Loaded := l2Loaded c2 - {namespace}\<rparr>)"

definition mergeL1 ::
  "CacheNamespace \<Rightarrow> int \<Rightarrow> 'v DiskCacheFormat \<Rightarrow> (string \<times> 'v CacheEntry) \<Rightarrow> 'v DiskCacheFormat" where
  \<comment> \<open>One round of the loop of \<^verbatim>\<open>flushL2\<close> over the entries of the fast tier.\<close>
  "mergeL1 namespace now existing ke =
     (if startsWith (fst ke) (namespace_name namespace @ '':'') \<and> expiresAt (snd ke) > now
      then existing\<lparr>entries := AList.update (fst ke)
              \<lparr>entry_value = entry_value (snd ke), expiresAt = now + L2_TTLS namespace\<rparr>
              (entries existing)\<rparr>
      else existing)"

definition pruneExpired ::
  "int \<Rightarrow> 'v DiskCacheFormat \<Rightarrow> (string \<times> 'v CacheEntry) \<Rightarrow> 'v DiskCacheFormat" where
  \<comment> \<open>One round of the loop of \<^verbatim>\<open>flushL2\<close> over \<^verbatim>\<open>Object.entries(existing.entries)\<close>.\<close>
  "pruneExpired now existing ke =
     (if expiresAt (snd ke) \<le> now
      then existing\<lparr>entries := AList.delete (fst ke) (entries existing)\<rparr>
      else existing)"

definition flushedContent ::
  "'v IntelligentCache \<Rightarrow> CacheNamespace \<Rightarrow> int \<Rightarrow> 'v DiskCacheFormat" where
  \<comment> \<open>The value of \<^verbatim>\<open>existing\<close> that \<^verbatim>\<open>flushL2\<close> hands to \<^verbatim>\<open>writeFile\<close>.\<close>
  "flushedContent c namespace now =
     (let empty = \<lparr>version = 1, entries = []\<rparr>;
          existing = (case disk c namespace of
                        NoFile \<Rightarrow> empty
                      | Unparsable \<Rightarrow> empty
                      | Parsed p \<Rightarrow> if version p \<noteq> 1 then empty else p);
          merged = foldl (mergeL1 namespace now) existing (l1 c)
      in foldl (pruneExpired now) merged (entries merged))"

definition flushL2 ::
  "'v IntelligentCache \<Rightarrow> CacheNamespace \<Rightarrow> int \<Rightarrow> bool \<Rightarrow> 'v IntelligentCache" where
  \<comment> \<open>\<open>write_ok\<close> says whether \<^verbatim>\<open>writeFile\<close> succeeds; a failed write is ignored and
      leaves the file as it was.\<close>
  "flushL2 c namespace now write_ok =
     (if write_ok
      then c\<lparr>disk := (disk c)(namespace := Parsed (flushedContent c namespace now))\<rparr>
      else c)"

definition l2TimerFired ::
  "'v IntelligentCache \<Rightarrow> CacheNamespace \<Rightarrow> int \<Rightarrow> bool \<Rightarrow> 'v IntelligentCache" where
  \<comment> \<open>The callback that \<^verbatim>\<open>scheduleL2Write\<close> hands to \<^verbatim>\<open>setTimeout\<close>, run when the
      timer of the name space fires.\<close>
  "l2TimerFired c namespace now write_ok =
     (let c1 = c\<lparr>l2Timers := l2Timers c - {namespace}\<rparr>
      in if namespace \<notin> l2Dirty c1 then c1
         else flushL2 (c1\<lparr>l2Dirty := l2Dirty c1 - {namespace}\<rparr>) namespace now write_ok)"


definition persisted :: "'v disk_file \<Rightarrow> (string \<rightharpoonup> 'v CacheEntry)" where
  \<comment> \<open>The persisted content of a name space as the flush reads it: a missing or
      malformed file, and one of another version, count as empty.\<close>
  "persisted f =
     (case f of
        NoFile \<Rightarrow> Map.empty
      | Unparsable \<Rightarrow> Map.empty
      | Parsed p \<Rightarrow> if version p \<noteq> 1 then Map.empty else map_of (entries p))"

definition wf_cache :: "'v IntelligentCache \<Rightarrow> CacheNamespace \<Rightarrow> bool" where
  \<comment> \<open>The lists stand for a \<^verbatim>\<open>Map\<close> and for the properties of an object: no key
      occurs twice.\<close>
  "wf_cache c namespace \<longleftrightarrow>
     distinct (map fst (l1 c)) \<and>
     (case disk c namespace of Parsed p \<Rightarrow> distinct (map fst (entries p)) | _ \<Rightarrow> True)"

text \<open>Concrete files for the scenarios below.\<close>

definition no_files :: "CacheNamespace \<Rightarrow> 'v disk_file" where
  "no_files namespace = NoFile"

definition example_files :: "CacheNamespace \<Rightarrow> string disk_file" where
  "example_files namespace =
     (if namespace = KB
      then Parsed \<lparr>version = 1,
                   entries = [(''kb:other'', \<lparr>entry_value = ''old'', expiresAt = 5000\<rparr>),
                              (''kb:stale'', \<lparr>entry_value = ''gone'', expiresAt = 1000\<rparr>)]\<rparr>
      else NoFile)"

definition expired_fast_entry :: "string IntelligentCache" where
  "expired_fast_entry =
     \<lparr>l1 = [(''kb:other'', \<lparr>entry_value = ''fast'', expiresAt = 100\<rparr>)],
      l2Dirty = {}, l2Timers = {}, l2Loaded = {}, disk = example_files\<rparr>"

section \<open>JSON values and \<^verbatim>\<open>JSON.parse\<close>\<close>

datatype js_error = SyntaxError string | TypeError string | AbortError string

text \<open>
  The values \<^verbatim>\<open>JSON.parse\<close> returns. A number is kept as its lexeme; nothing below
  depends on its numeric value except through \<open>toStr\<close> and \<open>truthy\<close>. The members of
  an object are its own properties in creation order.
\<close>

datatype json =
    JNull
  | JBool bool
  | JNum string
  | JStr string
  | JArr "json list"
  | JObj "(string \<times> json) list"

definition is_json_ws :: "char \<Rightarrow> bool" where
  "is_json_ws c \<longleftrightarrow> of_char c \<in> {9, 10, 13, 32 :: nat}"

definition skip_ws :: "string \<Rightarrow> string" where
  "skip_ws s = dropWhile is_json_ws s"

definition is_digit :: "char \<Rightarrow> bool" where
  "is_digit c \<longleftrightarrow> (48 :: nat) \<le> of_char c \<and> of_char c \<le> (57 :: nat)"

definition hex_val :: "char \<Rightarrow> nat option" where
  "hex_val c =
     (let n = (of_char c :: nat)
      in if 48 \<le> n \<and> n \<le> 57 then Some (n - 48)
         else if 97 \<le> n \<and> n \<le> 102 then Some (n - 87)
         else if 65 \<le> n \<and> n \<le> 70 then Some (n - 55)
         else None)"

definition simple_escape :: "char \<Rightarrow> char option" where
  \<comment> \<open>The character after a backslash: quote, backslash, slash, b, f, n, r, t.\<close>
  "simple_escape e =
     (if e = CHR 0x22 then Some (CHR 0x22)
      else if e = CHR 0x5C then Some (CHR 0x5C)
      else if e = CHR ''/'' then Some (CHR ''/'')
      else if e = CHR ''b'' then Some (CHR 0x08)
      else if e = CHR ''f'' then Some (CHR 0x0C)
      else if e = CHR ''n'' then Some (CHR 0x0A)
      else if e = CHR ''r'' then Some (CHR 0x0D)
      else if e = CHR ''t'' then Some (CHR 0x09)
      else None)"

text \<open>
  The rest of a string literal after its opening quote: the decoded string and the text
  after the closing quote. \<open>acc\<close> is the decoded part, reversed. A \<^verbatim>\<open>\uXXXX\<close> escape
  stands for one code unit; one beyond the Latin-1 range is kept as its low byte, so the
  length of the decoded string and the failure of the scan are exact.
\<close>

definition hex4 :: "char \<Rightarrow> char \<Rightarrow> char \<Rightarrow> char \<Rightarrow> char option" where
  \<comment> \<open>The code unit of four hexadecimal digits, as its low byte.\<close>
  "hex4 h1 h2 h3 h4 =
     (case hex_val h1 of None \<Rightarrow> None | Some a \<Rightarrow>
     (case hex_val h2 of None \<Rightarrow> None | Some b \<Rightarrow>
     (case hex_val h3 of None \<Rightarrow> None | Some x \<Rightarrow>
     (case hex_val h4 of None \<Rightarrow> None | Some y \<Rightarrow> Some (char_of (x * 16 + y))))))"

definition scan_escape :: "string \<Rightarrow> (char \<times> string) option" where
  \<comment> \<open>An escape sequence after its backslash: the character it stands for and the text
      after it.\<close>
  "scan_escape cs =
     (case cs of
        [] \<Rightarrow> None
      | e # cs' \<Rightarrow>
          (case simple_escape e of
             Some d \<Rightarrow> Some (d, cs')
           | None \<Rightarrow>
               if e = CHR ''u'' then
                 (case cs' of
                    h1 # h2 # h3 # h4 # rest \<Rightarrow>
                      (case hex4 h1 h2 h3 h4 of Some d \<Rightarrow> Some (d, rest) | None \<Rightarrow> None)
                  | _ \<Rightarrow> None)
               else None))"

function scan_string :: "string \<Rightarrow> string \<Rightarrow> (string \<times> string) option" where
  "scan_string acc [] = None"
| "scan_string acc (c # cs) =
     (if c = CHR 0x22 then Some (rev acc, cs)
      else if c = CHR 0x5C then
        (case scan_escape cs of
           None \<Rightarrow> None
         | Some (d, rest) \<Rightarrow> scan_string (d # acc) rest)
      else if (of_char c :: nat) < 32 then None
      else scan_string (c # acc) cs)"
  by pat_completeness auto
termination
  by (relation "measure (\<lambda>(acc, s). length s)")
     (auto simp: scan_escape_def split: list.splits option.splits if_splits)

definition scan_digits :: "string \<Rightarrow> (string \<times> string) option" where
  \<comment> \<open>One digit or more.\<close>
  "scan_digits s =
     (let ds = takeWhile is_digit s
      in if ds = [] then None else Some (ds, dropWhile is_digit s))"

definition scan_int_part :: "string \<Rightarrow> (string \<times> string) option" where
  \<comment> \<open>\<^verbatim>\<open>0\<close>, or a digit from 1 to 9 followed by digits.\<close>
  "scan_int_part s =
     (case s of
        [] \<Rightarrow> None
      | c # cs \<Rightarrow>
          if c = CHR ''0'' then Some ([c], cs)
          else if is_digit c then Some (c # takeWhile is_digit cs, dropWhile is_digit cs)
          else None)"

definition scan_frac :: "string \<Rightarrow> (string \<times> string) option" where
  "scan_frac s =
     (case s of
        [] \<Rightarrow> Some ([], s)
      | c # cs \<Rightarrow>
          if c = CHR ''.'' then map_option (\<lambda>(ds, r). (c # ds, r)) (scan_digits cs)
          else Some ([], s))"

definition scan_exp :: "string \<Rightarrow> (string \<times> string) option" where
  "scan_exp s =
     (case s of
        [] \<Rightarrow> Some ([], s)
      | c # cs \<Rightarrow>
          if c = CHR ''e'' \<or> c = CHR ''E'' then
            (case cs of
               [] \<Rightarrow> None
             | g # cs' \<Rightarrow>
                 if g = CHR ''+'' \<or> g = CHR ''-''
                 then map_option (\<lambda>(ds, r). (c # g # ds, r)) (scan_digits cs')
                 else map_option (\<lambda>(ds, r). (c # ds, r)) (scan_digits cs))
          else Some ([], s))"

definition scan_number :: "string \<Rightarrow> (string \<times> string) option" where
  "scan_number s =
     (let (sign, s1) = (case s of
                          [] \<Rightarrow> ([], s)
                        | c # cs \<Rightarrow> if c = CHR ''-'' then ([c], cs) else ([], s))
      in (case scan_int_part s1 of
            None \<Rightarrow> None
          | Some (ip, s2) \<Rightarrow>
              (case scan_frac s2 of
                 None \<Rightarrow> None
               | Some (fp, s3) \<Rightarrow>
                   (case scan_exp s3 of
                      None \<Rightarrow> None
                    | Some (ep, s4) \<Rightarrow> Some (sign @ ip @ fp @ ep, s4)))))"

definition parse_scalar :: "string \<Rightarrow> (json \<times> string) option" where
  \<comment> \<open>\<^verbatim>\<open>true\<close>, \<^verbatim>\<open>false\<close>, \<^verbatim>\<open>null\<close> or a number.\<close>
  "parse_scalar s =
     (if take 4 s = ''true'' then Some (JBool True, drop 4 s)
      else if take 5 s = ''false'' then Some (JBool False, drop 5 s)
      else if take 4 s = ''null'' then Some (JNull, drop 4 s)
      else map_option (\<lambda>(lexeme, r). (JNum lexeme, r)) (scan_number s))"

text \<open>
  The recursive descent, with fuel: every call uses one unit. \<open>parse_elems\<close> reads the
  elements of an array after its opening bracket, \<open>parse_members\<close> the members of an
  object after its opening brace; a repeated key keeps its place and takes the last
  value.
\<close>

fun parse_value :: "nat \<Rightarrow> string \<Rightarrow> (json \<times> string) option"
  and parse_elems :: "nat \<Rightarrow> json list \<Rightarrow> string \<Rightarrow> (json \<times> string) option"
  and parse_members :: "nat \<Rightarrow> (string \<times> json) list \<Rightarrow> string \<Rightarrow> (json \<times> string) option"
where
  "parse_value 0 s = None"
| "parse_value (Suc n) s =
     (case skip_ws s of
        [] \<Rightarrow> None
      | c # r \<Rightarrow>
          if c = CHR ''['' then
            (case skip_ws r of
               [] \<Rightarrow> None
             | c' # r' \<Rightarrow> if c' = CHR '']'' then Some (JArr [], r') else parse_elems n [] r)
          else if c = CHR ''{'' then
            (case skip_ws r of
               [] \<Rightarrow> None
             | c' # r' \<Rightarrow> if c' = CHR ''}'' then Some (JObj [], r') else parse_members n [] r)
          else if c = CHR 0x22 then
            map_option (\<lambda>(str, r'). (JStr str, r')) (scan_string [] r)
          else parse_scalar (c # r))"
| "parse_elems 0 acc s = None"
| "parse_elems (Suc n) acc s =
     (case parse_value n s of
        None \<Rightarrow> None
      | Some (v, r) \<Rightarrow>
          (case skip_ws r of
             [] \<Rightarrow> None
           | c # r' \<Rightarrow>
               if c = CHR '','' then parse_elems n (v # acc) r'
               else if c = CHR '']'' then Some (JArr (rev (v # acc)), r')
               else None))"
| "parse_members 0 acc s = None"
| "parse_members (Suc n) acc s =
     (case skip_ws s of
        [] \<Rightarrow> None
      | q # r \<Rightarrow>
          if q \<noteq> CHR 0x22 then None
          else
            (case scan_string [] r of
               None \<Rightarrow> None
             | Some (k, r1) \<Rightarrow>
                 (case skip_ws r1 of
                    [] \<Rightarrow> None
                  | c # r2 \<Rightarrow>
                      if c \<noteq> CHR '':'' then None
                      else
                        (case parse_value n r2 of
                           None \<Rightarrow> None
                         | Some (v, r3) \<Rightarrow>
                             (case skip_ws r3 of
                                [] \<Rightarrow> None
                              | d # r4 \<Rightarrow>
                                  if d = CHR '','' then parse_members n (AList.update k v acc) r4
                                  else if d = CHR ''}'' then Some (JObj (AList.update k v acc), r4)
                                  else None)))))"

definition JSON_parse :: "string \<Rightarrow> js_error + json" where
  \<comment> \<open>\<^verbatim>\<open>JSON.parse(text)\<close>: one value, with white space around it and nothing else. The
      fuel is enough for every text (\<open>JSON_parse_fuel_adequate\<close> below): each unit is
      spent after at least one more character has been read.\<close>
  "JSON_parse s =
     (case parse_value (2 * length s + 2) s of
        None \<Rightarrow> Inl (SyntaxError ''Unexpected token in JSON'')
      | Some (v, r) \<Rightarrow>
          if skip_ws r = [] then Inr v else Inl (SyntaxError ''Unexpected token in JSON''))"

definition indexOf :: "string \<Rightarrow> char \<Rightarrow> int" where
  \<comment> \<open>\<^verbatim>\<open>s.indexOf(c)\<close> for a single character.\<close>
  "indexOf s c = (if c \<in> set s then int (length (takeWhile (\<lambda>x. x \<noteq> c) s)) else - 1)"

definition extractJSON :: "string \<Rightarrow> js_error + json" where
  "extractJSON stdout =
     (let trimmed = trim stdout
      in if startsWith trimmed ''['' \<or> startsWith trimmed ''{'' then JSON_parse trimmed
         else
           (let arrayStart = indexOf trimmed (CHR ''['');
                objectStart = indexOf trimmed (CHR ''{'');
                start = (if arrayStart \<ge> 0 \<and> objectStart \<ge> 0
                         then min arrayStart objectStart
                         else max arrayStart objectStart)
            in if start < 0 then Inl (SyntaxError ''No JSON found in output'')
               else JSON_parse (drop (nat start) trimmed)))"

section \<open>JavaScript coercions on JSON values\<close>

definition and_then :: "('e + 'a) \<Rightarrow> ('a \<Rightarrow> 'e + 'b) \<Rightarrow> 'e + 'b" where
  \<comment> \<open>Sequencing of two computations that may throw.\<close>
  "and_then m f = (case m of Inl e \<Rightarrow> Inl e | Inr x \<Rightarrow> f x)"

fun traverse :: "('a \<Rightarrow> 'e + 'b) \<Rightarrow> 'a list \<Rightarrow> 'e + 'b list" where
  \<comment> \<open>\<^verbatim>\<open>xs.map(f)\<close> where \<open>f\<close> may throw: the first exception ends the loop.\<close>
  "traverse f [] = Inr []"
| "traverse f (x # xs) =
     (case f x of
        Inl e \<Rightarrow> Inl e
      | Inr y \<Rightarrow> (case traverse f xs of Inl e \<Rightarrow> Inl e | Inr ys \<Rightarrow> Inr (y # ys)))"

fun join_strings :: "string \<Rightarrow> string list \<Rightarrow> string" where
  \<comment> \<open>\<^verbatim>\<open>xs.join(sep)\<close>\<close>
  "join_strings sep [] = []"
| "join_strings sep [x] = x"
| "join_strings sep (x # y # ys) = x @ sep @ join_strings sep (y # ys)"

text \<open>
  \<open>lookup v name\<close> is \<^verbatim>\<open>v.name\<close> for a value other than \<^verbatim>\<open>null\<close>, with \<open>None\<close> for
  \<^verbatim>\<open>undefined\<close>: an object gives its own property; an array, a string, a number or a
  boolean has none of the properties read below. On \<^verbatim>\<open>null\<close> the access throws, which
  \<open>get_prop\<close> models.
\<close>

definition lookup :: "json \<Rightarrow> string \<Rightarrow> json option" where
  "lookup v name = (case v of JObj kvs \<Rightarrow> map_of kvs name | _ \<Rightarrow> None)"

definition get_prop :: "json \<Rightarrow> string \<Rightarrow> js_error + json option" where
  "get_prop v name =
     (if v = JNull then Inl (TypeError ''Cannot read properties of null'')
      else Inr (lookup v name))"

definition nullish :: "json option \<Rightarrow> json option \<Rightarrow> json option" where
  \<comment> \<open>\<^verbatim>\<open>a ?? b\<close>\<close>
  "nullish a b = (case a of None \<Rightarrow> b | Some v \<Rightarrow> if v = JNull then b else Some v)"

definition num_is_zero :: "string \<Rightarrow> bool" where
  \<comment> \<open>The lexeme denotes zero: its mantissa has no digit other than 0. (A lexeme whose
      value rounds to zero only by underflow is not covered.)\<close>
  "num_is_zero lexeme =
     (filter (\<lambda>c. is_digit c \<and> c \<noteq> CHR ''0'')
        (takeWhile (\<lambda>c. c \<noteq> CHR ''e'' \<and> c \<noteq> CHR ''E'') lexeme) = [])"

definition truthy :: "json option \<Rightarrow> bool" where
  "truthy a =
     (case a of
        None \<Rightarrow> False
      | Some JNull \<Rightarrow> False
      | Some (JBool b) \<Rightarrow> b
      | Some (JNum lexeme) \<Rightarrow> \<not> num_is_zero lexeme
      | Some (JStr s) \<Rightarrow> s \<noteq> []
      | Some (JArr xs) \<Rightarrow> True
      | Some (JObj kvs) \<Rightarrow> True)"

definition num_toString :: "string \<Rightarrow> string" where
  \<comment> \<open>\<^verbatim>\<open>String(n)\<close> for a number given by its lexeme; exact for an integer lexeme of at
      most 15 digits. Other lexemes are left as they are written.\<close>
  "num_toString lexeme = (if lexeme = ''-0'' then ''0'' else lexeme)"

text \<open>
  \<^verbatim>\<open>String(v)\<close>. An array is joined with commas, \<^verbatim>\<open>null\<close> elements giving the empty
  string. An object gives \<^verbatim>\<open>[object Object]\<close>, unless it has an own property
  \<^verbatim>\<open>toString\<close>, which in a parsed value is never callable: then the conversion throws.
\<close>

fun toStr :: "json \<Rightarrow> js_error + string"
  and toStr_elems :: "json list \<Rightarrow> js_error + string list"
where
  "toStr JNull = Inr ''null''"
| "toStr (JBool b) = Inr (if b then ''true'' else ''false'')"
| "toStr (JNum lexeme) = Inr (num_toString lexeme)"
| "toStr (JStr s) = Inr s"
| "toStr (JArr xs) =
     (case toStr_elems xs of Inl e \<Rightarrow> Inl e | Inr strs \<Rightarrow> Inr (join_strings '','' strs))"
| "toStr (JObj kvs) =
     (if map_of kvs ''toString'' \<noteq> None
      then Inl (TypeError ''Cannot convert object to primitive value'')
      else Inr ''[object Object]'')"
| "toStr_elems [] = Inr []"
| "toStr_elems (x # xs) =
     (case (if x = JNull then Inr [] else toStr x) of
        Inl e \<Rightarrow> Inl e
      | Inr s \<Rightarrow> (case toStr_elems xs of Inl e \<Rightarrow> Inl e | Inr strs \<Rightarrow> Inr (s # strs)))"

definition String_of :: "json option \<Rightarrow> js_error + string" where
  \<comment> \<open>\<^verbatim>\<open>String(a)\<close> where \<open>a\<close> may be \<^verbatim>\<open>undefined\<close>.\<close>
  "String_of a = (case a of None \<Rightarrow> Inr ''undefined'' | Some v \<Rightarrow> toStr v)"

definition firstDefined :: "json \<Rightarrow> string list \<Rightarrow> json option \<Rightarrow> json option" where
  \<comment> \<open>The chain \<^verbatim>\<open>v.n1 ?? v.n2 ?? ... ?? dflt\<close> on a value other than \<^verbatim>\<open>null\<close>.\<close>
  "firstDefined v names dflt = foldr (\<lambda>name rest. nullish (lookup v name) rest) names dflt"

fun digit_char :: "nat \<Rightarrow> char" where
  "digit_char n = char_of (48 + n)"

fun dec :: "nat \<Rightarrow> string" where
  \<comment> \<open>The decimal numeral of a natural number, as a template literal prints it.\<close>
  "dec n = (if n < 10 then [digit_char n] else dec (n div 10) @ [digit_char (n mod 10)])"

section \<open>Subprocess runner (tribe-runner.ts) and the bounded query executor\<close>

record RunResult =
  stdout :: string
  stderr :: string
  exitCode :: int

datatype TimeoutCategory = Fast | Default | Slow | Long

fun TIMEOUTS :: "TimeoutCategory \<Rightarrow> int" where
  "TIMEOUTS Fast = 15000"
| "TIMEOUTS Default = 30000"
| "TIMEOUTS Slow = 60000"
| "TIMEOUTS Long = 120000"

text \<open>
  The \<^verbatim>\<open>error\<close> argument that \<^verbatim>\<open>execFile\<close> hands to its callback: one whose \<^verbatim>\<open>code\<close>
  is a number (the exit code of the child), or any other one (the spawn failed, the child
  was killed at its time limit, the output exceeded \<^verbatim>\<open>maxBuffer\<close>).
\<close>

datatype exec_error = ExitCode int | OtherFailure

text \<open>
  What the child process does, as seen when the timer of \<^verbatim>\<open>withTimeout\<close> fires: the
  callback has run with an error or none, the standard output and the standard error;
  or it has not run yet.
\<close>

datatype exec_outcome = Returned "exec_error option" string string | NotInTime

text \<open>
  A promise in the race of \<^verbatim>\<open>withTimeout\<close>: settled, with a value or an exception,
  before the timer fires; or not settled by then (it settles later or never does).
\<close>

datatype 'a promise = Settled "js_error + 'a" | Unsettled

definition withTimeout :: "'a promise \<Rightarrow> int \<Rightarrow> 'a \<Rightarrow> js_error + 'a" where
  \<comment> \<open>\<^verbatim>\<open>await Promise.race([promise, timeout])\<close>: a rejection of the promise is thrown
      on, when the timer of \<open>ms\<close> milliseconds wins the fallback is returned.\<close>
  "withTimeout p ms fallback = (case p of Settled r \<Rightarrow> r | Unsettled \<Rightarrow> Inr fallback)"

definition QUERY_TIMEOUT_MS :: int where
  "QUERY_TIMEOUT_MS = 2000"

definition run ::
  "(string list \<Rightarrow> int \<Rightarrow> exec_outcome) \<Rightarrow> string list \<Rightarrow> TimeoutCategory \<Rightarrow> bool \<Rightarrow> bool
     \<Rightarrow> RunResult promise" where
  \<comment> \<open>\<open>execFile\<close> is the child process for each argument list and time limit; \<open>json\<close> is
      the option of that name; \<open>aborted\<close> is \<^verbatim>\<open>signal?.aborted\<close>, false when no signal is
      passed.\<close>
  "run execFile args timeout json aborted =
     (let finalArgs = (if json then args @ [''--format'', ''json''] else args)
      in (case execFile finalArgs (TIMEOUTS timeout) of
            NotInTime \<Rightarrow> Unsettled
          | Returned error out err \<Rightarrow>
              if aborted then Settled (Inl (AbortError ''Aborted''))
              else Settled (Inr \<lparr>stdout = out, stderr = err,
                     exitCode = (case error of
                                   Some (ExitCode code) \<Rightarrow> code
                                 | Some OtherFailure \<Rightarrow> 1
                                 | None \<Rightarrow> 0)\<rparr>)))"

record world =
  installed :: bool
  execFile :: "string list \<Rightarrow> int \<Rightarrow> exec_outcome"
  parseDate :: "string \<Rightarrow> int option"
  md5 :: "string \<Rightarrow> string"

section \<open>External query adapters (context-builder.ts)\<close>

datatype ContextDepth = Minimal | Standard | Deep

record SessionMeta =
  s_id :: string
  s_tool :: string
  s_project :: string
  s_branch :: "string option"
  s_startedAt :: string
  s_duration :: "string option"
  s_summary :: "string option"

record KBMatch =
  kb_id :: string
  kb_category :: "string option"
  kb_text :: string

record CachedContext =
  sessions :: "SessionMeta list"
  fetchedAt :: int

definition CACHE_TTL_MS :: int where
  "CACHE_TTL_MS = 60000"

definition isCacheFresh :: "CachedContext option \<Rightarrow> int \<Rightarrow> bool" where
  \<comment> \<open>\<open>sessionCache\<close> is the variable of that name of the module, \<open>now\<close> the clock.\<close>
  "isCacheFresh sessionCache now =
     (case sessionCache of None \<Rightarrow> False | Some cc \<Rightarrow> now - fetchedAt cc < CACHE_TTL_MS)"

definition optString :: "json option \<Rightarrow> js_error + string option" where
  \<comment> \<open>\<^verbatim>\<open>a ? String(a) : undefined\<close>\<close>
  "optString a =
     (if truthy a then and_then (String_of a) (\<lambda>s. Inr (Some s)) else Inr None)"

definition sessionFromJSON :: "json \<Rightarrow> js_error + SessionMeta" where
  \<comment> \<open>The function mapped over the items in \<^verbatim>\<open>fetchRecentSessions\<close>. The first
      property access throws on \<^verbatim>\<open>null\<close>.\<close>
  "sessionFromJSON s =
     and_then (get_prop s ''id'') (\<lambda>_.
     and_then (String_of (firstDefined s [''id'', ''conversation_id'', ''session_id'']
                            (Some (JStr '''')))) (\<lambda>id'.
     and_then (String_of (firstDefined s [''tool'', ''provider''] (Some (JStr ''unknown'')))) (\<lambda>tool.
     and_then (String_of (firstDefined s [''project'', ''project_path''] (Some (JStr '''')))) (\<lambda>project.
     and_then (optString (lookup s ''branch'')) (\<lambda>branch.
     and_then (String_of (firstDefined s [''started_at'', ''startedAt'', ''first_event'', ''timestamp'']
                            (Some (JStr '''')))) (\<lambda>startedAt.
     and_then (if nullish (lookup s ''duration_minutes'') None \<noteq> None
               then and_then (String_of (lookup s ''duration_minutes'')) (\<lambda>d. Inr (Some (d @ ''m'')))
               else optString (lookup s ''duration'')) (\<lambda>duration.
     and_then (optString (lookup s ''summary'')) (\<lambda>summary.
       Inr \<lparr>s_id = id', s_tool = tool, s_project = project, s_branch = branch,
            s_startedAt = startedAt, s_duration = duration, s_summary = summary\<rparr>))))))))"

definition array_items :: "json \<Rightarrow> json list" where
  \<comment> \<open>\<^verbatim>\<open>Array.isArray(raw) ? raw : []\<close>\<close>
  "array_items raw = (case raw of JArr items \<Rightarrow> items | _ \<Rightarrow> [])"

definition timeoutFallback :: RunResult where
  "timeoutFallback = \<lparr>stdout = ''[]'', stderr = '''', exitCode = 1\<rparr>"

definition fetchRecentSessions ::
  "world \<Rightarrow> CachedContext option \<Rightarrow> ContextDepth \<Rightarrow> int \<Rightarrow> int
     \<Rightarrow> (js_error + SessionMeta list) \<times> CachedContext option" where
  \<comment> \<open>Returns the result and the new value of \<open>sessionCache\<close>. \<open>nowFresh\<close> and
      \<open>nowFetched\<close> are the readings of the clock in \<^verbatim>\<open>isCacheFresh\<close> and at the
      assignment. The \<^verbatim>\<open>await\<close> of \<^verbatim>\<open>withTimeout\<close> stands outside the \<^verbatim>\<open>try\<close>.\<close>
  "fetchRecentSessions w sessionCache depth nowFresh nowFetched =
     (case (if isCacheFresh sessionCache nowFresh then sessionCache else None) of
        Some cc \<Rightarrow> (Inr (sessions cc), sessionCache)
      | None \<Rightarrow>
          (let limit = (case depth of Minimal \<Rightarrow> ''5'' | Standard \<Rightarrow> ''10'' | Deep \<Rightarrow> ''20'');
               timeRange = (if depth = Deep then ''7d'' else ''24h'')
           in (case withTimeout
                      (run (execFile w)
                         [''query'', ''sessions'', ''--all'', ''--limit'', limit,
                          ''--time-range'', timeRange, ''--format'', ''json'']
                         Fast False False)
                      QUERY_TIMEOUT_MS timeoutFallback of
                 Inl e \<Rightarrow> (Inl e, sessionCache)
               | Inr result \<Rightarrow>
                   if exitCode result \<noteq> 0 then (Inr [], sessionCache)
                   else
                     (case and_then (extractJSON (stdout result))
                             (\<lambda>raw. traverse sessionFromJSON (array_items raw)) of
                        Inl _ \<Rightarrow> (Inr [], sessionCache)
                      | Inr ss \<Rightarrow>
                          (Inr ss, Some \<lparr>sessions = ss, fetchedAt = nowFetched\<rparr>)))))"

definition kbFromJSON :: "json \<Rightarrow> js_error + KBMatch" where
  \<comment> \<open>The function mapped over the entries in \<^verbatim>\<open>runKBSearch\<close>.\<close>
  "kbFromJSON entry =
     and_then (get_prop entry ''document'') (\<lambda>document.
       (let doc = (case nullish document None of None \<Rightarrow> JObj [] | Some d \<Rightarrow> d);
            cat = nullish (lookup doc ''category'') (lookup entry ''category'')
        in and_then (String_of (nullish (lookup doc ''id'')
                                  (nullish (lookup entry ''id'') (Some (JStr ''''))))) (\<lambda>id'.
           and_then (optString cat) (\<lambda>category.
           and_then (String_of (nullish (lookup doc ''content'')
                                  (nullish (lookup entry ''snippet'')
                                     (nullish (lookup entry ''content'')
                                        (nullish (lookup entry ''text'') (Some (JStr ''''))))))) (\<lambda>text'.
             Inr \<lparr>kb_id = id', kb_category = category, kb_text = text'\<rparr>)))))"

definition runKBSearch :: "world \<Rightarrow> string \<Rightarrow> js_error + KBMatch list" where
  "runKBSearch w term =
     (case withTimeout
             (run (execFile w) [''-beta'', ''kb'', ''search'', term, ''--format'', ''json'']
                Fast False False)
             QUERY_TIMEOUT_MS timeoutFallback of
        Inl e \<Rightarrow> Inl e
      | Inr result \<Rightarrow>
          if exitCode result \<noteq> 0 then Inr []
          else
            (case and_then (extractJSON (stdout result))
                    (\<lambda>raw. traverse kbFromJSON (slice0 (array_items raw) 5)) of
               Inl _ \<Rightarrow> Inr []
             | Inr ms \<Rightarrow> Inr ms))"

section \<open>Knowledge search with the multi-keyword merge\<close>

definition docStep ::
  "(string \<times> KBMatch \<times> int) list \<Rightarrow> KBMatch \<Rightarrow> (string \<times> KBMatch \<times> int) list" where
  \<comment> \<open>One round of the inner merge loop; \<open>docMap\<close> is the \<^verbatim>\<open>Map\<close> in insertion order,
      each value being the pair of \<^verbatim>\<open>match\<close> and \<^verbatim>\<open>freq\<close>.\<close>
  "docStep docMap m =
     (case map_of docMap (kb_id m) of
        Some existing \<Rightarrow> AList.update (kb_id m) (fst existing, snd existing + 1) docMap
      | None \<Rightarrow> AList.update (kb_id m) (m, 1) docMap)"

definition buildDocMap :: "KBMatch list list \<Rightarrow> (string \<times> KBMatch \<times> int) list" where
  "buildDocMap allResults = foldl (foldl docStep) [] allResults"

definition mergeKBResults :: "KBMatch list list \<Rightarrow> KBMatch list" where
  \<comment> \<open>From the declaration of \<^verbatim>\<open>docMap\<close> to the value of \<^verbatim>\<open>merged\<close>.\<close>
  "mergeKBResults allResults =
     map fst (slice0 (sortByScoreDesc (map snd (buildDocMap allResults))) 5)"

definition searchKB ::
  "world \<Rightarrow> KBMatch list IntelligentCache \<Rightarrow> string \<Rightarrow> int \<Rightarrow> int \<Rightarrow> int \<Rightarrow> int
     \<Rightarrow> (js_error + KBMatch list) \<times> KBMatch list IntelligentCache \<times> string list" where
  \<comment> \<open>Returns the result, the cache afterwards and the terms handed to \<^verbatim>\<open>runKBSearch\<close>,
      each of which is one call of the upstream search. \<open>now1\<close>, \<open>now2\<close>, \<open>now3\<close> are the
      clock readings of \<^verbatim>\<open>cache.get\<close> and \<open>nowSet\<close> that of \<^verbatim>\<open>cache.set\<close>. A cached
      array is truthy, also when empty.\<close>
  "searchKB w c query now1 now2 now3 nowSet =
     (let (cached, c1) = get (md5 w) c KB query now1 now2 now3
      in (case cached of
            Some hit \<Rightarrow> (Inr hit, c1, [])
          | None \<Rightarrow>
              (let keywords = extractSearchKeywords query 3
               in (case traverse (runKBSearch w) keywords of
                     Inl e \<Rightarrow> (Inl e, c1, keywords)
                   | Inr allResults \<Rightarrow>
                       (let merged = mergeKBResults allResults;
                            c2 = (if length merged > 0
                                  then set_entry (md5 w) c1 KB query merged nowSet
                                  else c1)
                        in (Inr merged, c2, keywords))))))"

definition termCount :: "KBMatch list list \<Rightarrow> string \<Rightarrow> int" where
  \<comment> \<open>Following the words of the specification, for comparison with the \<^verbatim>\<open>freq\<close> of
      \<^const>\<open>docStep\<close>: the number of terms whose search produced the identifier.\<close>
  "termCount allResults i = int (length (filter (\<lambda>results. i \<in> kb_id ` set results) allResults))"

section \<open>Context assembler\<close>

definition formatTimestamp :: "world \<Rightarrow> int \<Rightarrow> string \<Rightarrow> string" where
  \<comment> \<open>\<open>parseDate\<close> gives \<^verbatim>\<open>new Date(iso).getTime()\<close> for the argument \<open>isoString\<close>, \<open>None\<close> for an invalid date; \<open>now\<close> is
      \<^verbatim>\<open>new Date().getTime()\<close>.\<close>
  "formatTimestamp w now isoString =
     (if isoString = [] then ''recently''
      else (case parseDate w isoString of
              None \<Rightarrow> ''recently''
            | Some t \<Rightarrow>
                (let diffMs = now - t;
                     diffMin = diffMs div 60000
                 in if diffMin < 0 then ''recently''
                    else if diffMin < 60 then dec (nat diffMin) @ ''m ago''
                    else (let diffHours = diffMin div 60
                          in if diffHours < 24 then dec (nat diffHours) @ ''h ago''
                             else dec (nat (diffHours div 24)) @ ''d ago''))))"

definition newline :: string where
  "newline = [CHR 0x0A]"

definition formatSessionLine :: "world \<Rightarrow> ContextDepth \<Rightarrow> int \<Rightarrow> SessionMeta \<Rightarrow> string" where
  "formatSessionLine w depth now s =
     (let time = formatTimestamp w now (s_startedAt s);
          dur = (case s_duration s of
                   Some d \<Rightarrow> if d \<noteq> [] then '' ('' @ d @ '')'' else []
                 | None \<Rightarrow> []);
          branch = (case s_branch s of
                      Some b \<Rightarrow> if b \<noteq> [] then '', branch: '' @ b else []
                    | None \<Rightarrow> []);
          summary = (case s_summary s of
                       Some t \<Rightarrow> if depth = Deep \<and> t \<noteq> [] then newline @ ''    '' @ t else []
                     | None \<Rightarrow> [])
      in ''- '' @ time @ '': '' @ s_tool s @ '' on ''
           @ (if s_project s \<noteq> [] then s_project s else ''unknown project'')
           @ dur @ branch @ summary)"

definition formatSessions :: "world \<Rightarrow> ContextDepth \<Rightarrow> (nat \<Rightarrow> int) \<Rightarrow> SessionMeta list \<Rightarrow> string" where
  \<comment> \<open>\<open>nowFormat i\<close> is the clock reading for the line of the session at index \<open>i\<close>.\<close>
  "formatSessions w depth nowFormat ss =
     (if length ss = 0 then []
      else ''Recent Activity:'' @ newline
             @ join_strings newline
                 (map (\<lambda>(s, i). formatSessionLine w depth (nowFormat i) s)
                      (zip ss [0 ..< length ss])))"

definition formatKBLine :: "KBMatch \<Rightarrow> string" where
  \<comment> \<open>The function mapped over the results in \<^verbatim>\<open>formatKBResults\<close>.\<close>
  "formatKBLine r =
     (let cat = (case kb_category r of
                   Some c \<Rightarrow> if c \<noteq> [] then ''['' @ c @ ''] '' else []
                 | None \<Rightarrow> []);
          text' = (if length (kb_text r) > 200 then take 200 (kb_text r) @ ''...''
                   else kb_text r)
      in ''- '' @ cat @ text')"

definition formatKBResults :: "KBMatch list \<Rightarrow> string" where
  "formatKBResults results =
     (if length results = 0 then []
      else ''Relevant Knowledge:'' @ newline @ join_strings newline (map formatKBLine results))"

definition detectActiveProject :: "SessionMeta list \<Rightarrow> string" where
  "detectActiveProject ss =
     (case ss of
        [] \<Rightarrow> []
      | recent # _ \<Rightarrow>
          (let branch = (case s_branch recent of
                           Some b \<Rightarrow> if b \<noteq> [] then '' (branch: '' @ b @ '')'' else []
                         | None \<Rightarrow> [])
           in if s_project recent \<noteq> [] then ''Active Project: '' @ s_project recent @ branch
              else []))"

record ctx_state =
  sessionCache :: "CachedContext option"
  kbCache :: "KBMatch list IntelligentCache"

record clock =
  nowFresh :: int
  nowFetched :: int
  nowGet1 :: int
  nowGet2 :: int
  nowGet3 :: int
  nowSet :: int
  nowFormat :: "nat \<Rightarrow> int"

definition buildContext ::
  "world \<Rightarrow> ctx_state \<Rightarrow> string \<Rightarrow> ContextDepth \<Rightarrow> clock
     \<Rightarrow> (js_error + string option) \<times> ctx_state" where
  \<comment> \<open>\<open>Inl\<close> is an exception reaching the caller, \<open>Inr None\<close> the result \<^verbatim>\<open>null\<close>. The
      state holds the module's \<open>sessionCache\<close> and the cache singleton; \<open>clk\<close> gives the
      readings of the clock. Both queries are started before either is awaited, and
      \<^verbatim>\<open>Promise.all\<close> rejects when one of them does.\<close>
  "buildContext w st prompt depth clk =
     (if \<not> installed w then (Inr None, st)
      else
        (let (sres, sc) = fetchRecentSessions w (sessionCache st) depth (nowFresh clk) (nowFetched clk);
             (kres, kc, terms) =
                (if depth \<noteq> Minimal \<and> length prompt \<ge> 5
                 then searchKB w (kbCache st) prompt (nowGet1 clk) (nowGet2 clk) (nowGet3 clk)
                        (nowSet clk)
                 else (Inr [], kbCache st, []));
             st' = \<lparr>sessionCache = sc, kbCache = kc\<rparr>
         in (case sres of
               Inl e \<Rightarrow> (Inl e, st')
             | Inr ss \<Rightarrow>
                 (case kres of
                    Inl e \<Rightarrow> (Inl e, st')
                  | Inr kbResults \<Rightarrow>
                      if length ss = 0 \<and> length kbResults = 0 then (Inr None, st')
                      else
                        (let parts = filter (\<lambda>p. p \<noteq> [])
                                       [formatSessions w depth (nowFormat clk) ss,
                                        formatKBResults kbResults,
                                        detectActiveProject ss]
                         in if length parts = 0 then (Inr None, st')
                            else (Inr (Some (''<tribe-context>'' @ newline
                                               @ join_strings (newline @ newline) parts
                                               @ newline @ ''</tribe-context>'')),
                                  st'))))))"

text \<open>Auxiliary notions for the proofs about the merge.\<close>

definition freqOf :: "(string \<times> KBMatch \<times> int) list \<Rightarrow> string \<Rightarrow> int" where
  \<comment> \<open>The \<^verbatim>\<open>freq\<close> stored for an identifier, 0 when there is none.\<close>
  "freqOf docMap i = (case map_of docMap i of Some e \<Rightarrow> snd e | None \<Rightarrow> 0)"

definition docMap_ok :: "(string \<times> KBMatch \<times> int) list \<Rightarrow> bool" where
  \<comment> \<open>The keys are unique and each stored match carries the identifier it is stored
      under.\<close>
  "docMap_ok docMap \<longleftrightarrow>
     distinct (map fst docMap) \<and> list_all (\<lambda>(k, m, f). kb_id m = k) docMap"

definition fullRanking :: "KBMatch list list \<Rightarrow> (KBMatch \<times> int) list" where
  \<comment> \<open>The sorted array of \<^verbatim>\<open>searchKB\<close> before \<^verbatim>\<open>.slice(0, 5)\<close>.\<close>
  "fullRanking rs = sortByScoreDesc (map snd (buildDocMap rs))"

definition ranking_example :: "KBMatch list list" where
  \<comment> \<open>The results for three terms A, B and C: \<open>x\<close> is found for A and C, \<open>y\<close> for A only,
      where it comes first.\<close>
  "ranking_example =
     [[\<lparr>kb_id = ''y'', kb_category = None, kb_text = ''only A''\<rparr>,
       \<lparr>kb_id = ''x'', kb_category = None, kb_text = ''A and C''\<rparr>],
      [],
      [\<lparr>kb_id = ''x'', kb_category = None, kb_text = ''A and C''\<rparr>]]"



definition scenario_upstream :: world where
  \<comment> \<open>An upstream with one session, printed after an advisory line, and one knowledge
      entry; every date parses to the epoch.\<close>
  \<open>scenario_upstream =
     \<lparr>installed = True,
      execFile = (\<lambda>args limit.
         if take 2 args = [''query'', ''sessions'']
         then Returned None
                (''Tip: run tribe login ''
                 @ ''[{"conversation_id":"s1","tool":"claude","project_path":"proj",''
                 @ ''"first_event":"2026-01-01","duration_minutes":12,"branch":"main"}]'') ''''
         else Returned None
                ''[{"document":{"id":"d1","content":"use jwt","category":"auth"},"score":1}]'' ''''),
      parseDate = (\<lambda>s. Some 0),
      md5 = id\<rparr>\<close>

definition garbage_upstream :: world where
  \<comment> \<open>An upstream whose every call succeeds and prints text without any JSON.\<close>
  \<open>garbage_upstream =
     \<lparr>installed = True,
      execFile = (\<lambda>args limit. Returned None ''No results found.'' ''''),
      parseDate = (\<lambda>s. None),
      md5 = id\<rparr>\<close>

definition silent_upstream :: world where
  \<comment> \<open>An upstream that never answers in time.\<close>
  \<open>silent_upstream =
     \<lparr>installed = True,
      execFile = (\<lambda>args limit. NotInTime),
      parseDate = (\<lambda>s. None),
      md5 = id\<rparr>\<close>

definition fresh_state :: ctx_state where
  "fresh_state = \<lparr>sessionCache = None, kbCache = new_cache no_files\<rparr>"

definition noon :: clock where
  \<comment> \<open>Every reading of the clock is 1000000 ms.\<close>
  "noon = \<lparr>nowFresh = 1000000, nowFetched = 1000000, nowGet1 = 1000000, nowGet2 = 1000000,
           nowGet3 = 1000000, nowSet = 1000000, nowFormat = (\<lambda>i. 1000000)\<rparr>"

section \<open>Properties of the term extractor\<close>

lemma seenStep_distinct:
  "distinct (map fst seen) \<Longrightarrow> distinct (map fst (seenStep seen ws))"
  by (simp add: seenStep_def distinct_update split: option.split)

lemma seenStep_nonempty: "seenStep seen ws \<noteq> []"
  by (auto simp: seenStep_def split: option.split)

lemma foldl_seenStep_distinct:
  "distinct (map fst seen) \<Longrightarrow> distinct (map fst (foldl seenStep seen scored))"
  by (induction scored arbitrary: seen) (simp_all add: seenStep_distinct)

lemma foldl_seenStep_nonempty:
  "seen \<noteq> [] \<or> scored \<noteq> [] \<Longrightarrow> foldl seenStep seen scored \<noteq> []"
  by (induction scored arbitrary: seen) (simp_all add: seenStep_nonempty)

lemma dedupeWords_distinct: "distinct (map fst (dedupeWords scored))"
  by (simp add: dedupeWords_def foldl_seenStep_distinct)

lemma dedupeWords_nonempty: "scored \<noteq> [] \<Longrightarrow> dedupeWords scored \<noteq> []"
  by (simp add: dedupeWords_def foldl_seenStep_nonempty)

lemma scoreWords_nonempty: "ws \<noteq> [] \<Longrightarrow> scoreWords ws \<noteq> []"
  by (simp add: scoreWords_def)

lemma distinct_map_fst_sort_key:
  "distinct (map fst xs) \<Longrightarrow> distinct (map fst (sort_key f xs))"
  by (metis distinct_map distinct_sort set_sort)

lemma rankedWords_props:
  assumes "ws \<noteq> []"
  defines "u \<equiv> map fst (sortByScoreDesc (dedupeWords (scoreWords ws)))"
  shows "u \<noteq> []" and "distinct u"
proof -
  have "dedupeWords (scoreWords ws) \<noteq> []"
    using assms(1) by (simp add: dedupeWords_nonempty scoreWords_nonempty)
  then have "length (sortByScoreDesc (dedupeWords (scoreWords ws))) \<noteq> 0"
    unfolding sortByScoreDesc_def by simp
  then show "u \<noteq> []" unfolding u_def by auto
  show "distinct u"
    unfolding u_def sortByScoreDesc_def
    by (rule distinct_map_fst_sort_key) (rule dedupeWords_distinct)
qed

lemma slice0_bounds:
  assumes "1 \<le> count" "xs \<noteq> []"
  shows "1 \<le> length (slice0 xs count)" "int (length (slice0 xs count)) \<le> count"
proof -
  from assms(2) have "1 \<le> int (length xs)" by (cases xs) simp_all
  with assms(1) show "1 \<le> length (slice0 xs count)"
    by (simp add: slice0_def Let_def min_def) arith
  from assms(1) show "int (length (slice0 xs count)) \<le> count"
    by (simp add: slice0_def Let_def min_def) arith
qed

lemma slice0_distinct: "distinct xs \<Longrightarrow> distinct (slice0 xs count)"
  by (simp add: slice0_def Let_def)

lemma hd_split_spaces_aux:
  "\<exists>rest. split_spaces_aux False cur s = (rev cur @ takeWhile (\<lambda>c. \<not> is_space c) s) # rest"
proof (induction s arbitrary: cur)
  case Nil
  then show ?case by simp
next
  case (Cons a s)
  show ?case
  proof (cases "is_space a")
    case True
    then show ?thesis by simp
  next
    case False
    from Cons[of "a # cur"] False show ?thesis by simp
  qed
qed

lemma strip_trailing_Cons:
  "rev (dropWhile P (rev (x # xs))) =
     (if \<forall>y\<in>set (x # xs). P y then [] else x # rev (dropWhile P (rev xs)))"
  by (simp add: dropWhile_append)

lemma takeWhile_strip_trailing:
  "takeWhile (\<lambda>c. \<not> P c) (rev (dropWhile P (rev d))) = takeWhile (\<lambda>c. \<not> P c) d"
proof (induction d)
  case Nil
  then show ?case by simp
next
  case (Cons x d)
  show ?case
  proof (cases "P x")
    case True
    then show ?thesis by (simp only: strip_trailing_Cons) simp
  next
    case False
    then show ?thesis using Cons by (simp only: strip_trailing_Cons) simp
  qed
qed

lemma takeWhile_trim:
  "takeWhile (\<lambda>c. \<not> is_space c) (trim s) = firstRawToken s"
  by (simp add: trim_def firstRawToken_def takeWhile_strip_trailing)

lemma fallbackKeyword_eq:
  "fallbackKeyword p = (if firstRawToken p = [] then p else firstRawToken p)"
proof -
  obtain rest where "split_spaces (trim p) = takeWhile (\<lambda>c. \<not> is_space c) (trim p) # rest"
    using hd_split_spaces_aux[of "[]" "trim p"] by (auto simp: split_spaces_def)
  then show ?thesis
    by (simp add: fallbackKeyword_def takeWhile_trim)
qed

lemma extractSearchKeywords_ranked:
  assumes "1 \<le> count"
  shows "1 \<le> length (extractSearchKeywords p count)
       \<and> int (length (extractSearchKeywords p count)) \<le> count
       \<and> distinct (extractSearchKeywords p count)"
proof (cases "candidateWords p = []")
  case True
  then show ?thesis using assms by (simp add: extractSearchKeywords_def)
next
  case False
  define u where "u = map fst (sortByScoreDesc (dedupeWords (scoreWords (candidateWords p))))"
  have u: "u \<noteq> []" "distinct u"
    unfolding u_def using rankedWords_props[OF False] by simp_all
  have r: "extractSearchKeywords p count = slice0 u count"
    using False by (simp add: extractSearchKeywords_def u_def)
  show ?thesis
    unfolding r using slice0_bounds[OF assms u(1)] slice0_distinct[OF u(2)] by simp
qed

text \<open>
  C7 (as stated, refuted). With a requested count of 0 a prompt that has a surviving
  token yields no term at all, and a prompt made of white space only is returned whole,
  although its first white-space-delimited token is empty.
\<close>

theorem C7_extractSearchKeywords_counterexample:
  "extractSearchKeywords ''kubernetes'' 0 = []
   \<and> extractSearchKeywords ''  '' 3 = [''  ''] \<and> firstRawToken ''  '' = []"
  by code_simp

text \<open>
  C7 (amended). For every input string and every requested count \<open>N \<ge> 1\<close>, the term
  extractor returns at least one and at most \<open>N\<close> terms, without duplicates. Whenever no
  token survives the filtering it returns exactly one term, whatever the count: the first
  white-space-delimited token of the raw input, or the raw input itself when that token
  is empty (the input is empty or white space only).
\<close>

theorem C7_extractSearchKeywords_amended:
  "(1 \<le> count \<longrightarrow>
      1 \<le> length (extractSearchKeywords p count)
      \<and> int (length (extractSearchKeywords p count)) \<le> count
      \<and> distinct (extractSearchKeywords p count))
   \<and> (candidateWords p = [] \<longrightarrow>
      extractSearchKeywords p count = [if firstRawToken p = [] then p else firstRawToken p])"
proof (intro conjI impI)
  assume c: "1 \<le> count"
  from extractSearchKeywords_ranked[OF c, of p]
  show "1 \<le> length (extractSearchKeywords p count)"
    and "int (length (extractSearchKeywords p count)) \<le> count"
    and "distinct (extractSearchKeywords p count)" by simp_all
next
  assume "candidateWords p = []"
  then show "extractSearchKeywords p count = [if firstRawToken p = [] then p else firstRawToken p]"
    by (simp add: extractSearchKeywords_def fallbackKeyword_eq)
qed

theorem C7_extractSearchKeywords_amended_witness:
  "(1::int) \<le> 3 \<and> candidateWords ''how do I the'' = []
   \<and> extractSearchKeywords ''how do I the'' 3 = [''how'']
   \<and> length (extractSearchKeywords ''implement authentication middleware'' 3) = 2"
proof -
  have h: "candidateWords ''how do I the'' = []" by code_simp
  have f: "firstRawToken ''how do I the'' = ''how''" by code_simp
  have l: "length (extractSearchKeywords ''implement authentication middleware'' 3) = 2"
    by code_simp
  from C7_extractSearchKeywords_amended[of 3 "''how do I the''"] h f l
  show ?thesis by simp
qed

section \<open>Properties of the cache\<close>



lemma mergeL1_distinct:
  "distinct (map fst (entries ex)) \<Longrightarrow> distinct (map fst (entries (mergeL1 ns now ex ke)))"
  by (simp add: mergeL1_def distinct_update)

lemma foldl_mergeL1_distinct:
  "distinct (map fst (entries ex)) \<Longrightarrow> distinct (map fst (entries (foldl (mergeL1 ns now) ex xs)))"
  by (induction xs arbitrary: ex) (simp_all add: mergeL1_distinct)















lemma disk_loadL2 [simp]: "disk (loadL2 c ns) = disk c"
  by (simp add: loadL2_def)

lemma l1_loadL2 [simp]: "l1 (loadL2 c ns) = l1 c"
  by (simp add: loadL2_def)

lemma l2Get_fst:
  "fst (l2Get c ns ck now) =
     (case persisted (disk c ns) ck of
        Some d \<Rightarrow> if expiresAt d \<le> now then None else Some (entry_value d)
      | None \<Rightarrow> None)"
  by (simp add: l2Get_def persisted_def Let_def split: disk_file.split option.split)

lemma l2Get_snd: "snd (l2Get c ns ck now) = loadL2 c ns"
  by (simp add: l2Get_def Let_def split: disk_file.split option.split)

lemma get_hit:
  assumes "map_of (l1 c) (cacheKey md5hex ns key) = Some e" "now1 < expiresAt e"
  shows "get md5hex c ns key now1 now2 now3 = (Some (entry_value e), c)"
  using assms by (simp add: get_def Let_def)

lemma get_fallthrough:
  assumes "\<And>e. map_of (l1 c) (cacheKey md5hex ns key) = Some e \<Longrightarrow> expiresAt e \<le> now1"
  shows "fst (get md5hex c ns key now1 now2 now3) =
     (case persisted (disk c ns) (cacheKey md5hex ns key) of
        Some d \<Rightarrow> if expiresAt d \<le> now2 then None else Some (entry_value d)
      | None \<Rightarrow> None)"
    and "l1 (snd (get md5hex c ns key now1 now2 now3)) =
     (case fst (get md5hex c ns key now1 now2 now3) of
        Some v \<Rightarrow> AList.update (cacheKey md5hex ns key)
                   \<lparr>entry_value = v, expiresAt = now3 + L1_TTLS ns\<rparr>
                   (AList.delete (cacheKey md5hex ns key) (l1 c))
      | None \<Rightarrow> AList.delete (cacheKey md5hex ns key) (l1 c))"
proof -
  define ck where "ck = cacheKey md5hex ns key"
  define c1 where "c1 = c\<lparr>l1 := AList.delete ck (l1 c)\<rparr>"
  define r where "r = l2Get c1 ns ck now2"
  have c1: "(if map_of (l1 c) ck \<noteq> None then c\<lparr>l1 := AList.delete ck (l1 c)\<rparr> else c) = c1"
    by (auto simp: c1_def map_of_eq_None_iff)
  have miss: "(case map_of (l1 c) ck of Some e \<Rightarrow> expiresAt e > now1 | None \<Rightarrow> False) = False"
    using assms by (auto simp: ck_def split: option.split)
  have g: "get md5hex c ns key now1 now2 now3 =
       (case fst r of
          Some v \<Rightarrow> (Some v, (snd r)\<lparr>l1 := AList.update ck
                        \<lparr>entry_value = v, expiresAt = now3 + L1_TTLS ns\<rparr> (l1 (snd r))\<rparr>)
        | None \<Rightarrow> (None, snd r))"
    unfolding get_def Let_def ck_def[symmetric] miss c1 r_def[symmetric]
    by (simp add: split_beta)
  have f: "fst r = (case persisted (disk c ns) ck of
        Some d \<Rightarrow> if expiresAt d \<le> now2 then None else Some (entry_value d)
      | None \<Rightarrow> None)"
    by (simp add: r_def l2Get_fst c1_def)
  have l: "l1 (snd r) = AList.delete ck (l1 c)"
    by (simp add: r_def l2Get_snd c1_def)
  show "fst (get md5hex c ns key now1 now2 now3) =
     (case persisted (disk c ns) (cacheKey md5hex ns key) of
        Some d \<Rightarrow> if expiresAt d \<le> now2 then None else Some (entry_value d)
      | None \<Rightarrow> None)"
    unfolding ck_def[symmetric] f[symmetric] g by (cases "fst r") simp_all
  show "l1 (snd (get md5hex c ns key now1 now2 now3)) =
     (case fst (get md5hex c ns key now1 now2 now3) of
        Some v \<Rightarrow> AList.update (cacheKey md5hex ns key)
                   \<lparr>entry_value = v, expiresAt = now3 + L1_TTLS ns\<rparr>
                   (AList.delete (cacheKey md5hex ns key) (l1 c))
      | None \<Rightarrow> AList.delete (cacheKey md5hex ns key) (l1 c))"
    unfolding ck_def[symmetric] g by (cases "fst r") (simp_all add: l)
qed


lemma get_expired_as_absent:
  assumes "map_of (l1 c) (cacheKey md5hex ns key) = Some e" "expiresAt e \<le> now1"
  shows "get md5hex c ns key now1 now2 now3
       = get md5hex (c\<lparr>l1 := AList.delete (cacheKey md5hex ns key) (l1 c)\<rparr>) ns key now1 now2 now3"
proof -
  have "\<not> now1 < expiresAt e" using assms(2) by simp
  then show ?thesis
    using assms(1) by (simp add: get_def Let_def delete_conv')
qed

text \<open>
  C4. \<^const>\<open>get\<close> never returns an expired entry. A value it returns was read either
  from a fast-tier entry with \<open>now1 < expiresAt\<close>, or, the fast tier having no unexpired
  entry for the key, from a persisted entry with \<open>now2 < expiresAt\<close>, where \<open>now1\<close> and
  \<open>now2\<close> are the clock readings of the two tests. An expired fast-tier entry is treated
  as absent: the call behaves as on the cache without it, and the entry is gone from the
  fast tier when the call returns absent. When the persisted entry has expired too, the
  call returns absent.
\<close>

theorem C4_get_never_expired:
  "(\<forall>v. fst (get md5hex c ns key now1 now2 now3) = Some v \<longrightarrow>
        (\<exists>e. map_of (l1 c) (cacheKey md5hex ns key) = Some e
              \<and> entry_value e = v \<and> now1 < expiresAt e)
      \<or> ((\<forall>e. map_of (l1 c) (cacheKey md5hex ns key) = Some e \<longrightarrow> expiresAt e \<le> now1)
          \<and> (\<exists>d. persisted (disk c ns) (cacheKey md5hex ns key) = Some d
                  \<and> entry_value d = v \<and> now2 < expiresAt d)))
   \<and> (\<forall>e. map_of (l1 c) (cacheKey md5hex ns key) = Some e \<and> expiresAt e \<le> now1 \<longrightarrow>
          get md5hex c ns key now1 now2 now3
            = get md5hex (c\<lparr>l1 := AList.delete (cacheKey md5hex ns key) (l1 c)\<rparr>)
                ns key now1 now2 now3
          \<and> (fst (get md5hex c ns key now1 now2 now3) = None \<longrightarrow>
               map_of (l1 (snd (get md5hex c ns key now1 now2 now3)))
                 (cacheKey md5hex ns key) = None))
   \<and> ((\<forall>e. map_of (l1 c) (cacheKey md5hex ns key) = Some e \<longrightarrow> expiresAt e \<le> now1)
        \<and> (\<forall>d. persisted (disk c ns) (cacheKey md5hex ns key) = Some d \<longrightarrow> expiresAt d \<le> now2)
      \<longrightarrow> fst (get md5hex c ns key now1 now2 now3) = None)"
proof (intro conjI allI impI)
  fix v
  assume r: "fst (get md5hex c ns key now1 now2 now3) = Some v"
  show "(\<exists>e. map_of (l1 c) (cacheKey md5hex ns key) = Some e
              \<and> entry_value e = v \<and> now1 < expiresAt e)
      \<or> ((\<forall>e. map_of (l1 c) (cacheKey md5hex ns key) = Some e \<longrightarrow> expiresAt e \<le> now1)
          \<and> (\<exists>d. persisted (disk c ns) (cacheKey md5hex ns key) = Some d
                  \<and> entry_value d = v \<and> now2 < expiresAt d))"
  proof (cases "\<exists>e. map_of (l1 c) (cacheKey md5hex ns key) = Some e \<and> now1 < expiresAt e")
    case True
    then obtain e where e: "map_of (l1 c) (cacheKey md5hex ns key) = Some e" "now1 < expiresAt e"
      by blast
    from get_hit[OF e] r have "entry_value e = v" by simp
    with e show ?thesis by blast
  next
    case False
    then have miss: "\<And>e. map_of (l1 c) (cacheKey md5hex ns key) = Some e \<Longrightarrow> expiresAt e \<le> now1"
      by force
    from get_fallthrough(1)[OF miss] r
    have "\<exists>d. persisted (disk c ns) (cacheKey md5hex ns key) = Some d
              \<and> entry_value d = v \<and> now2 < expiresAt d"
      by (auto split: option.splits if_splits)
    with miss show ?thesis by blast
  qed
next
  fix e
  assume a: "map_of (l1 c) (cacheKey md5hex ns key) = Some e \<and> expiresAt e \<le> now1"
  then show "get md5hex c ns key now1 now2 now3
            = get md5hex (c\<lparr>l1 := AList.delete (cacheKey md5hex ns key) (l1 c)\<rparr>)
                ns key now1 now2 now3"
    using get_expired_as_absent by blast
  assume n: "fst (get md5hex c ns key now1 now2 now3) = None"
  from a have miss: "\<And>e. map_of (l1 c) (cacheKey md5hex ns key) = Some e \<Longrightarrow> expiresAt e \<le> now1"
    by simp
  from get_fallthrough(2)[OF miss] n
  show "map_of (l1 (snd (get md5hex c ns key now1 now2 now3))) (cacheKey md5hex ns key) = None"
    by (simp add: delete_conv')
next
  assume a: "(\<forall>e. map_of (l1 c) (cacheKey md5hex ns key) = Some e \<longrightarrow> expiresAt e \<le> now1)
        \<and> (\<forall>d. persisted (disk c ns) (cacheKey md5hex ns key) = Some d \<longrightarrow> expiresAt d \<le> now2)"
  then have miss: "\<And>e. map_of (l1 c) (cacheKey md5hex ns key) = Some e \<Longrightarrow> expiresAt e \<le> now1"
    by simp
  from get_fallthrough(1)[OF miss] a
  show "fst (get md5hex c ns key now1 now2 now3) = None"
    by (auto split: option.splits)
qed

lemma get_expired_fast_entry:
  "get id expired_fast_entry KB ''other'' 200 200 200
     = (Some ''old'',
        \<lparr>l1 = [(''kb:other'', \<lparr>entry_value = ''old'', expiresAt = 600200\<rparr>)],
         l2Dirty = {}, l2Timers = {}, l2Loaded = {KB}, disk = example_files\<rparr>)"
  by (simp add: get_def l2Get_def loadL2_def cacheKey_def expired_fast_entry_def example_files_def
      Let_def)

lemma get_expired_both:
  "get id expired_fast_entry KB ''other'' 6000 6000 6000
     = (None, \<lparr>l1 = [], l2Dirty = {}, l2Timers = {}, l2Loaded = {KB}, disk = example_files\<rparr>)"
  by (simp add: get_def l2Get_def loadL2_def cacheKey_def expired_fast_entry_def example_files_def
      Let_def)

theorem C4_get_never_expired_witness:
  "fst (get id expired_fast_entry KB ''other'' 200 200 200) = Some ''old''
   \<and> map_of (l1 expired_fast_entry) (cacheKey id KB ''other'')
        = Some \<lparr>entry_value = ''fast'', expiresAt = 100\<rparr>
   \<and> (100::int) \<le> 200
   \<and> persisted (disk expired_fast_entry KB) (cacheKey id KB ''other'')
        = Some \<lparr>entry_value = ''old'', expiresAt = 5000\<rparr>
   \<and> (200::int) < 5000
   \<and> fst (get id expired_fast_entry KB ''other'' 6000 6000 6000) = None
   \<and> map_of (l1 (snd (get id expired_fast_entry KB ''other'' 6000 6000 6000)))
        (cacheKey id KB ''other'') = None"
proof -
  have m: "map_of (l1 expired_fast_entry) (cacheKey id KB ''other'')
        = Some \<lparr>entry_value = ''fast'', expiresAt = 100\<rparr>"
    by (simp add: expired_fast_entry_def cacheKey_def)
  have p: "persisted (disk expired_fast_entry KB) (cacheKey id KB ''other'')
        = Some \<lparr>entry_value = ''old'', expiresAt = 5000\<rparr>"
    by (simp add: expired_fast_entry_def cacheKey_def persisted_def example_files_def)
  have g: "fst (get id expired_fast_entry KB ''other'' 200 200 200) = Some ''old''"
    by (simp add: get_expired_fast_entry)
  have n: "fst (get id expired_fast_entry KB ''other'' 6000 6000 6000) = None"
    by (simp add: get_expired_both)
  have h: "map_of (l1 expired_fast_entry) (cacheKey id KB ''other'')
             = Some \<lparr>entry_value = ''fast'', expiresAt = 100\<rparr>
           \<and> expiresAt \<lparr>entry_value = ''fast'', expiresAt = 100\<rparr> \<le> 6000"
    by (simp add: m)
  from C4_get_never_expired[of id expired_fast_entry KB "''other''" 6000 6000 6000] h n
  have "map_of (l1 (snd (get id expired_fast_entry KB ''other'' 6000 6000 6000)))
        (cacheKey id KB ''other'') = None"
    by blast
  with m p g n show ?thesis by simp
qed













section \<open>Properties of the tolerant JSON extraction\<close>


lemma drop_takeWhile_length: "drop (length (takeWhile P xs)) xs = dropWhile P xs"
  by (induction xs) simp_all

lemma indexOf_nonneg_iff: "0 \<le> indexOf t c \<longleftrightarrow> c \<in> set t"
  by (simp add: indexOf_def)

lemma first_bracket_both:
  assumes "a \<in> set t" "b \<in> set t"
  shows "min (length (takeWhile (\<lambda>x. x \<noteq> a) t)) (length (takeWhile (\<lambda>x. x \<noteq> b) t))
       = length (takeWhile (\<lambda>c. c \<noteq> a \<and> c \<noteq> b) t)"
  using assms by (induction t) auto

lemma first_bracket_one:
  assumes "b \<notin> set t"
  shows "takeWhile (\<lambda>c. c \<noteq> a \<and> c \<noteq> b) t = takeWhile (\<lambda>x. x \<noteq> a) t"
    and "takeWhile (\<lambda>c. c \<noteq> b \<and> c \<noteq> a) t = takeWhile (\<lambda>x. x \<noteq> a) t"
  using assms by (induction t) auto

lemma slice_first_bracket:
  assumes "a \<in> set t \<or> b \<in> set t"
  shows "drop (nat (if indexOf t a \<ge> 0 \<and> indexOf t b \<ge> 0
                    then min (indexOf t a) (indexOf t b)
                    else max (indexOf t a) (indexOf t b))) t
       = dropWhile (\<lambda>c. c \<noteq> a \<and> c \<noteq> b) t"
proof (cases "a \<in> set t")
  case a: True
  show ?thesis
  proof (cases "b \<in> set t")
    case True
    have "min (int (length (takeWhile (\<lambda>x. x \<noteq> a) t))) (int (length (takeWhile (\<lambda>x. x \<noteq> b) t)))
        = int (length (takeWhile (\<lambda>c. c \<noteq> a \<and> c \<noteq> b) t))"
      using first_bracket_both[OF a True] by linarith
    then show ?thesis
      using a True by (simp add: indexOf_def drop_takeWhile_length)
  next
    case False
    then show ?thesis
      using a by (simp add: indexOf_def first_bracket_one(1)[OF False, symmetric] drop_takeWhile_length)
  qed
next
  case False
  with assms have b: "b \<in> set t" by simp
  show ?thesis
    using False b
    by (simp add: indexOf_def first_bracket_one(2)[OF False, symmetric] drop_takeWhile_length)
qed

lemma in_set_dropWhile: "x \<in> set xs \<Longrightarrow> \<not> P x \<Longrightarrow> x \<in> set (dropWhile P xs)"
  by (induction xs) auto

lemma in_set_trim:
  assumes "\<not> is_space c"
  shows "c \<in> set (trim s) \<longleftrightarrow> c \<in> set s"
proof
  assume "c \<in> set (trim s)"
  then show "c \<in> set s"
    by (auto simp: trim_def dest!: set_dropWhileD)
next
  assume "c \<in> set s"
  then have "c \<in> set (rev (dropWhile is_space s))"
    using assms by (simp add: in_set_dropWhile)
  then show "c \<in> set (trim s)"
    using assms by (simp add: trim_def in_set_dropWhile)
qed

lemma extractJSON_eq:
  "extractJSON s =
     (if CHR ''['' \<in> set s \<or> CHR ''{'' \<in> set s
      then JSON_parse (dropWhile (\<lambda>c. c \<noteq> CHR ''['' \<and> c \<noteq> CHR ''{'') (trim s))
      else Inl (SyntaxError ''No JSON found in output''))"
proof -
  define t where "t = trim s"
  have br: "CHR ''['' \<in> set s \<longleftrightarrow> CHR ''['' \<in> set t" "CHR ''{'' \<in> set s \<longleftrightarrow> CHR ''{'' \<in> set t"
    by (simp_all add: t_def in_set_trim is_space_def)
  show ?thesis
  proof (cases "startsWith t ''['' \<or> startsWith t ''{''")
    case True
    then obtain c r where t: "t = c # r" and c: "c = CHR ''['' \<or> c = CHR ''{''"
      by (cases t) (auto simp: startsWith_def)
    then show ?thesis
      using True by (auto simp: extractJSON_def t_def[symmetric] br)
  next
    case False
    show ?thesis
    proof (cases "CHR ''['' \<in> set t \<or> CHR ''{'' \<in> set t")
      case True
      from slice_first_bracket[OF True] True False show ?thesis
        by (simp add: extractJSON_def t_def[symmetric] br Let_def indexOf_nonneg_iff)
           (auto simp: indexOf_def)
    next
      case none: False
      then show ?thesis
        using False by (simp add: extractJSON_def t_def[symmetric] br Let_def indexOf_def)
    qed
  qed
qed

lemma JSON_parse_message:
  "JSON_parse t \<noteq> Inl (SyntaxError ''No JSON found in output'')"
  by (simp add: JSON_parse_def split: option.split)

text \<open>
  C6 (as stated, refuted). The text has a bracket, after an advisory line or at its very
  start, and \<^verbatim>\<open>extractJSON\<close> raises all the same: what follows the bracket is not
  valid JSON, and the \<^verbatim>\<open>SyntaxError\<close> of \<^verbatim>\<open>JSON.parse\<close> is not caught.
\<close>

theorem C6_extractJSON_counterexample:
  \<open>CHR ''['' \<in> set ''Tip: run sync first [unfinished''
   \<and> extractJSON ''Tip: run sync first [unfinished'' = Inl (SyntaxError ''Unexpected token in JSON'')
   \<and> extractJSON ''['' = Inl (SyntaxError ''Unexpected token in JSON'')\<close>
  by code_simp


text \<open>
  C6 (amended). \<^verbatim>\<open>extractJSON\<close> locates the first \<^verbatim>\<open>[\<close> or \<^verbatim>\<open>{\<close> of the trimmed text
  and returns what \<^verbatim>\<open>JSON.parse\<close> gives for the text from there on: the parsed value,
  or the \<^verbatim>\<open>SyntaxError\<close> that \<^verbatim>\<open>JSON.parse\<close> throws when that text is not valid JSON. It
  raises its own error, ``No JSON found in output'', exactly when the text has no bracket
  at all.
\<close>

theorem C6_extractJSON_amended:
  "extractJSON s =
     (if CHR ''['' \<in> set s \<or> CHR ''{'' \<in> set s
      then JSON_parse (dropWhile (\<lambda>c. c \<noteq> CHR ''['' \<and> c \<noteq> CHR ''{'') (trim s))
      else Inl (SyntaxError ''No JSON found in output''))
   \<and> (extractJSON s = Inl (SyntaxError ''No JSON found in output'')
        \<longleftrightarrow> \<not> (CHR ''['' \<in> set s \<or> CHR ''{'' \<in> set s))"
  by (simp add: extractJSON_eq JSON_parse_message)

section \<open>Properties of the multi-keyword merge\<close>


lemma freqOf_docStep:
  "freqOf (docStep dm m) i = freqOf dm i + (if kb_id m = i then 1 else 0)"
  by (simp add: docStep_def freqOf_def update_conv' split: option.split)

lemma freqOf_foldl_docStep:
  "freqOf (foldl docStep dm ms) i = freqOf dm i + int (length (filter (\<lambda>m. kb_id m = i) ms))"
  by (induction ms arbitrary: dm) (simp_all add: freqOf_docStep)

lemma freqOf_foldl_foldl:
  "freqOf (foldl (foldl docStep) dm rs) i
     = freqOf dm i + (\<Sum>r\<leftarrow>rs. int (length (filter (\<lambda>m. kb_id m = i) r)))"
  by (induction rs arbitrary: dm) (simp_all add: freqOf_foldl_docStep)

lemma count_distinct_ids:
  "distinct (map kb_id r) \<Longrightarrow>
     int (length (filter (\<lambda>m. kb_id m = i) r)) = (if i \<in> kb_id ` set r then 1 else 0)"
  by (induction r) auto

lemma termCount_Cons:
  "termCount (r # rs) i = (if i \<in> kb_id ` set r then 1 else 0) + termCount rs i"
  by (simp add: termCount_def)

lemma sum_counts_termCount:
  "\<forall>r\<in>set rs. distinct (map kb_id r) \<Longrightarrow>
     (\<Sum>r\<leftarrow>rs. int (length (filter (\<lambda>m. kb_id m = i) r))) = termCount rs i"
proof (induction rs)
  case Nil
  then show ?case by (simp add: termCount_def)
next
  case (Cons r rs)
  then show ?case
    by (simp add: termCount_Cons count_distinct_ids del: of_nat_add)
qed

lemma freqOf_buildDocMap:
  "\<forall>r\<in>set rs. distinct (map kb_id r) \<Longrightarrow> freqOf (buildDocMap rs) i = termCount rs i"
  unfolding buildDocMap_def freqOf_foldl_foldl
  by (simp add: sum_counts_termCount freqOf_def)

lemma set_update_subset: "set (AList.update k v al) \<subseteq> insert (k, v) (set al)"
  by (induction al) auto

lemma docMap_ok_docStep: "docMap_ok dm \<Longrightarrow> docMap_ok (docStep dm m)"
proof -
  assume ok: "docMap_ok dm"
  have d: "distinct (map fst (docStep dm m))"
    using ok by (simp add: docMap_ok_def docStep_def distinct_update split: option.split)
  have e: "\<forall>x\<in>set dm. (case x of (k, m, f) \<Rightarrow> kb_id m = k)"
    using ok by (simp add: docMap_ok_def list_all_iff)
  have "\<forall>x\<in>set (docStep dm m). (case x of (k, m, f) \<Rightarrow> kb_id m = k)"
  proof (cases "map_of dm (kb_id m)")
    case None
    then show ?thesis
      using e set_update_subset[of "kb_id m" "(m, 1)" dm]
      by (auto simp: docStep_def)
  next
    case (Some ex)
    then have "(kb_id m, ex) \<in> set dm" by (rule map_of_SomeD)
    with e have "kb_id (fst ex) = kb_id m" by (cases ex) auto
    then show ?thesis
      using e Some set_update_subset[of "kb_id m" "(fst ex, snd ex + 1)" dm]
      by (auto simp: docStep_def)
  qed
  with d show ?thesis by (simp add: docMap_ok_def list_all_iff)
qed

lemma docMap_ok_foldl: "docMap_ok dm \<Longrightarrow> docMap_ok (foldl docStep dm ms)"
  by (induction ms arbitrary: dm) (simp_all add: docMap_ok_docStep)

lemma docMap_ok_foldl_foldl: "docMap_ok dm \<Longrightarrow> docMap_ok (foldl (foldl docStep) dm rs)"
  by (induction rs arbitrary: dm) (simp_all add: docMap_ok_foldl)

lemma docMap_ok_buildDocMap: "docMap_ok (buildDocMap rs)"
  unfolding buildDocMap_def by (rule docMap_ok_foldl_foldl) (simp add: docMap_ok_def)

lemma keys_docStep: "fst ` set (docStep dm m) = insert (kb_id m) (fst ` set dm)"
  by (simp add: docStep_def dom_update split: option.split)

lemma keys_foldl_docStep: "fst ` set (foldl docStep dm ms) = fst ` set dm \<union> kb_id ` set ms"
  by (induction ms arbitrary: dm) (auto simp: keys_docStep)

lemma keys_foldl_foldl:
  "fst ` set (foldl (foldl docStep) dm rs) = fst ` set dm \<union> (\<Union>r\<in>set rs. kb_id ` set r)"
  by (induction rs arbitrary: dm) (auto simp: keys_foldl_docStep)

lemma keys_buildDocMap: "fst ` set (buildDocMap rs) = (\<Union>r\<in>set rs. kb_id ` set r)"
  by (simp add: buildDocMap_def keys_foldl_foldl)


lemma slice0_take: "0 \<le> n \<Longrightarrow> slice0 xs n = take (nat n) xs"
  by (simp add: slice0_def Let_def min_def)

lemma docMap_entry:
  assumes "docMap_ok dm" "(k, m, f) \<in> set dm"
  shows "kb_id m = k" "f = freqOf dm k"
proof -
  from assms show "kb_id m = k" by (auto simp: docMap_ok_def list_all_iff)
  from assms have "map_of dm k = Some (m, f)" by (simp add: docMap_ok_def)
  then show "f = freqOf dm k" by (simp add: freqOf_def)
qed

lemma set_fullRanking: "set (fullRanking rs) = snd ` set (buildDocMap rs)"
  by (simp add: fullRanking_def sortByScoreDesc_def)

lemma fullRanking_entry:
  assumes "p \<in> set (fullRanking rs)"
  shows "snd p = freqOf (buildDocMap rs) (kb_id (fst p))"
    and "kb_id (fst p) \<in> fst ` set (buildDocMap rs)"
proof -
  from assms obtain k where k: "(k, p) \<in> set (buildDocMap rs)"
    by (auto simp: set_fullRanking)
  then have kmf: "(k, fst p, snd p) \<in> set (buildDocMap rs)" by simp
  from docMap_entry[OF docMap_ok_buildDocMap kmf]
  show "snd p = freqOf (buildDocMap rs) (kb_id (fst p))" by simp
  from docMap_entry(1)[OF docMap_ok_buildDocMap kmf] k
  show "kb_id (fst p) \<in> fst ` set (buildDocMap rs)" by force
qed

lemma ids_fullRanking:
  "map (kb_id \<circ> fst) (map snd (buildDocMap rs)) = map fst (buildDocMap rs)"
proof -
  have "\<forall>x\<in>set (buildDocMap rs). (kb_id \<circ> fst) (snd x) = fst x"
    using docMap_ok_buildDocMap[of rs] by (auto simp: docMap_ok_def list_all_iff)
  then show ?thesis by simp
qed

lemma distinct_ids_fullRanking: "distinct (map (kb_id \<circ> fst) (fullRanking rs))"
proof -
  have d: "distinct (map (kb_id \<circ> fst) (map snd (buildDocMap rs)))"
    unfolding ids_fullRanking using docMap_ok_buildDocMap[of rs] by (simp add: docMap_ok_def)
  then have "distinct (map snd (buildDocMap rs))"
    and "inj_on (kb_id \<circ> fst) (set (map snd (buildDocMap rs)))"
    by (simp_all only: distinct_map)
  then show ?thesis
    unfolding fullRanking_def sortByScoreDesc_def
    by (simp only: distinct_map distinct_sort set_sort)
qed

lemma id_set_fullRanking:
  "(kb_id \<circ> fst) ` set (fullRanking rs) = (\<Union>r\<in>set rs. kb_id ` set r)"
proof -
  have "(kb_id \<circ> fst) ` set (fullRanking rs) = set (map (kb_id \<circ> fst) (map snd (buildDocMap rs)))"
    by (simp add: set_fullRanking image_image)
  also have "\<dots> = fst ` set (buildDocMap rs)" unfolding ids_fullRanking by simp
  finally show ?thesis by (simp add: keys_buildDocMap)
qed

lemma sorted_fullRanking: "sorted (map (\<lambda>p. - snd p) (fullRanking rs))"
  by (simp add: fullRanking_def sortByScoreDesc_def)

lemma sorted_wrt_fullRanking:
  assumes "\<forall>r\<in>set rs. distinct (map kb_id r)"
  shows "sorted_wrt (\<lambda>a b. termCount rs (kb_id b) \<le> termCount rs (kb_id a))
           (map fst (fullRanking rs))"
proof -
  have eq: "map (\<lambda>p. - snd p) (fullRanking rs)
         = map (\<lambda>p. - termCount rs (kb_id (fst p))) (fullRanking rs)"
    using fullRanking_entry(1) freqOf_buildDocMap[OF assms] by simp
  have "sorted_wrt (\<lambda>x y. x \<le> y) (map (\<lambda>p. - termCount rs (kb_id (fst p))) (fullRanking rs))"
    using sorted_fullRanking[of rs] unfolding eq by simp
  then show ?thesis
    by (simp add: sorted_wrt_map)
qed

lemma mergeKBResults_take: "mergeKBResults rs = take 5 (map fst (fullRanking rs))"
  by (simp add: mergeKBResults_def fullRanking_def slice0_take take_map)


lemma termCount_pos_iff: "0 < termCount rs i \<longleftrightarrow> i \<in> (\<Union>r\<in>set rs. kb_id ` set r)"
  by (auto simp: termCount_def filter_empty_conv)

lemma ranking_order:
  assumes hyp: "\<forall>r\<in>set rs. distinct (map kb_id r)"
    and gt: "termCount rs b < termCount rs a"
    and b: "b \<in> kb_id ` set (mergeKBResults rs)"
  shows "\<exists>i j. i < j \<and> j < length (mergeKBResults rs)
           \<and> kb_id (mergeKBResults rs ! i) = a \<and> kb_id (mergeKBResults rs ! j) = b"
proof -
  define full where "full = map fst (fullRanking rs)"
  have m: "mergeKBResults rs = take 5 full" by (simp add: mergeKBResults_take full_def)
  have sw: "sorted_wrt (\<lambda>x y. termCount rs (kb_id y) \<le> termCount rs (kb_id x)) full"
    unfolding full_def by (rule sorted_wrt_fullRanking[OF hyp])
  have ids: "kb_id ` set full = (\<Union>r\<in>set rs. kb_id ` set r)"
    using id_set_fullRanking[of rs] by (simp add: full_def image_image)
  from b obtain j where j: "j < length (take 5 full)" "kb_id (take 5 full ! j) = b"
    unfolding m by (auto simp: in_set_conv_nth)
  then have j5: "j < 5" "j < length full" and bj: "kb_id (full ! j) = b" by simp_all
  have "0 \<le> termCount rs b" by (simp add: termCount_def)
  with gt have "0 < termCount rs a" by simp
  then have "a \<in> kb_id ` set full" by (simp add: termCount_pos_iff ids)
  then obtain i where i: "i < length full" "kb_id (full ! i) = a"
    by (auto simp: in_set_conv_nth)
  have "i < j"
  proof (rule ccontr)
    assume "\<not> i < j"
    moreover have "i \<noteq> j" using gt bj i(2) by auto
    ultimately have "j < i" by simp
    from sorted_wrt_nth_less[OF sw this i(1)] gt bj i(2) show False by simp
  qed
  with j5 i j show ?thesis unfolding m by (intro exI[of _ i] exI[of _ j]) simp
qed

text \<open>
  C8 (as stated, refuted). \<^verbatim>\<open>freq\<close> counts the occurrences of an identifier, not the
  terms that produced it. Here \<open>x\<close> comes three times in the results of the first term
  and \<open>y\<close> once in the results of each of the other two: \<open>y\<close> was produced by two
  terms and \<open>x\<close> by one, and \<open>x\<close> is ranked first.
\<close>

theorem C8_mergeKBResults_counterexample:
  "termCount [[\<lparr>kb_id = ''x'', kb_category = None, kb_text = ''one''\<rparr>,
               \<lparr>kb_id = ''x'', kb_category = None, kb_text = ''two''\<rparr>,
               \<lparr>kb_id = ''x'', kb_category = None, kb_text = ''three''\<rparr>],
              [\<lparr>kb_id = ''y'', kb_category = None, kb_text = ''why''\<rparr>],
              [\<lparr>kb_id = ''y'', kb_category = None, kb_text = ''why''\<rparr>]] ''x'' = 1
   \<and> termCount [[\<lparr>kb_id = ''x'', kb_category = None, kb_text = ''one''\<rparr>,
               \<lparr>kb_id = ''x'', kb_category = None, kb_text = ''two''\<rparr>,
               \<lparr>kb_id = ''x'', kb_category = None, kb_text = ''three''\<rparr>],
              [\<lparr>kb_id = ''y'', kb_category = None, kb_text = ''why''\<rparr>],
              [\<lparr>kb_id = ''y'', kb_category = None, kb_text = ''why''\<rparr>]] ''y'' = 2
   \<and> map kb_id (mergeKBResults
             [[\<lparr>kb_id = ''x'', kb_category = None, kb_text = ''one''\<rparr>,
               \<lparr>kb_id = ''x'', kb_category = None, kb_text = ''two''\<rparr>,
               \<lparr>kb_id = ''x'', kb_category = None, kb_text = ''three''\<rparr>],
              [\<lparr>kb_id = ''y'', kb_category = None, kb_text = ''why''\<rparr>],
              [\<lparr>kb_id = ''y'', kb_category = None, kb_text = ''why''\<rparr>]]) = [''x'', ''y'']"
  by code_simp

text \<open>
  C8 (amended). When no per-term result list has the same identifier twice, the merge
  unions the per-term results by identifier and orders them by the number of distinct
  terms that produced each, descending, truncated to the top 5: the merged list is the
  first 5 elements of a list that has each identifier of the union once and is sorted by
  that number. In particular a candidate produced by more terms than another one that is
  in the merged list is in it too, at an earlier place.
\<close>

theorem C8_mergeKBResults_amended:
  assumes "\<forall>r\<in>set rs. distinct (map kb_id r)"
  shows "(\<exists>full. mergeKBResults rs = take 5 full
            \<and> kb_id ` set full = (\<Union>r\<in>set rs. kb_id ` set r)
            \<and> distinct (map kb_id full)
            \<and> sorted_wrt (\<lambda>x y. termCount rs (kb_id y) \<le> termCount rs (kb_id x)) full)
       \<and> (\<forall>a b. termCount rs b < termCount rs a \<and> b \<in> kb_id ` set (mergeKBResults rs)
             \<longrightarrow> (\<exists>i j. i < j \<and> j < length (mergeKBResults rs)
                     \<and> kb_id (mergeKBResults rs ! i) = a \<and> kb_id (mergeKBResults rs ! j) = b))"
proof (intro conjI allI impI)
  show "\<exists>full. mergeKBResults rs = take 5 full
            \<and> kb_id ` set full = (\<Union>r\<in>set rs. kb_id ` set r)
            \<and> distinct (map kb_id full)
            \<and> sorted_wrt (\<lambda>x y. termCount rs (kb_id y) \<le> termCount rs (kb_id x)) full"
  proof (intro exI[of _ "map fst (fullRanking rs)"] conjI)
    show "mergeKBResults rs = take 5 (map fst (fullRanking rs))" by (rule mergeKBResults_take)
    show "kb_id ` set (map fst (fullRanking rs)) = (\<Union>r\<in>set rs. kb_id ` set r)"
      using id_set_fullRanking[of rs] by (simp add: image_image)
    show "distinct (map kb_id (map fst (fullRanking rs)))"
      using distinct_ids_fullRanking[of rs] by simp
    show "sorted_wrt (\<lambda>x y. termCount rs (kb_id y) \<le> termCount rs (kb_id x))
            (map fst (fullRanking rs))"
      by (rule sorted_wrt_fullRanking[OF assms])
  qed
next
  fix a b
  assume "termCount rs b < termCount rs a \<and> b \<in> kb_id ` set (mergeKBResults rs)"
  then show "\<exists>i j. i < j \<and> j < length (mergeKBResults rs)
                     \<and> kb_id (mergeKBResults rs ! i) = a \<and> kb_id (mergeKBResults rs ! j) = b"
    using ranking_order[OF assms] by blast
qed


theorem C8_mergeKBResults_amended_witness:
  "list_all (\<lambda>r. distinct (map kb_id r)) ranking_example
   \<and> termCount ranking_example ''y'' = 1 \<and> termCount ranking_example ''x'' = 2
   \<and> map kb_id (mergeKBResults ranking_example) = [''x'', ''y'']
   \<and> (\<exists>i j. i < j \<and> j < length (mergeKBResults ranking_example)
          \<and> kb_id (mergeKBResults ranking_example ! i) = ''x''
          \<and> kb_id (mergeKBResults ranking_example ! j) = ''y'')"
proof -
  have d: "list_all (\<lambda>r. distinct (map kb_id r)) ranking_example" by code_simp
  then have h: "\<forall>r\<in>set ranking_example. distinct (map kb_id r)" by (simp add: list_all_iff)
  have t: "termCount ranking_example ''y'' = 1" "termCount ranking_example ''x'' = 2"
    by code_simp+
  have m: "map kb_id (mergeKBResults ranking_example) = [''x'', ''y'']" by code_simp
  then have "set (map kb_id (mergeKBResults ranking_example)) = {''x'', ''y''}" by simp
  then have y: "''y'' \<in> kb_id ` set (mergeKBResults ranking_example)" by auto
  have lt: "termCount ranking_example ''y'' < termCount ranking_example ''x''"
    by (simp add: t)
  from C8_mergeKBResults_amended[OF h] lt y
  have "\<exists>i j. i < j \<and> j < length (mergeKBResults ranking_example)
          \<and> kb_id (mergeKBResults ranking_example ! i) = ''x''
          \<and> kb_id (mergeKBResults ranking_example ! j) = ''y''"
    by blast
  with d t m show ?thesis by blast
qed

section \<open>Properties of the knowledge adapter and of the formatting\<close>



section \<open>Properties of the knowledge search and its cache\<close>












section \<open>No exception reaches the caller of the assembler\<close>


text \<open>
  The exceptions of the model are real: a rejected promise goes through
  \<^verbatim>\<open>withTimeout\<close>, \<^verbatim>\<open>run\<close> rejects for an aborted signal, and the adapters' inner
  steps throw on the inputs below. The assembler turns them into less context.
\<close>

lemma withTimeout_rethrows: "withTimeout (Settled (Inl e)) ms fallback = Inl e"
  by (simp add: withTimeout_def)

lemma run_aborted_rejects:
  "run (\<lambda>args limit. Returned error out err) args t j True = Settled (Inl (AbortError ''Aborted''))"
  by (simp add: run_def Let_def)

lemma sessionFromJSON_null:
  "sessionFromJSON JNull = Inl (TypeError ''Cannot read properties of null'')"
  by (simp add: sessionFromJSON_def and_then_def get_prop_def)

lemma kbFromJSON_toString:
  "kbFromJSON (JObj [(''id'', JObj [(''toString'', JNum ''1'')])])
     = Inl (TypeError ''Cannot convert object to primitive value'')"
  by code_simp

lemma buildContext_degrades:
  "fst (buildContext garbage_upstream fresh_state ''how do I implement authentication'' Deep noon)
     = Inr None"
  "fst (buildContext silent_upstream fresh_state ''how do I implement authentication'' Deep noon)
     = Inr None"
  by code_simp+

text \<open>
  The first end-to-end scenario of the specification: one session and one knowledge
  entry give a block between the two markers with one bullet in each section.
\<close>

lemma buildContext_scenario:
  "fst (buildContext scenario_upstream fresh_state ''how do I implement authentication''
          Standard noon)
     = Inr (Some (''<tribe-context>'' @ newline
          @ ''Recent Activity:'' @ newline
          @ ''- 16m ago: claude on proj (12m), branch: main'' @ newline @ newline
          @ ''Relevant Knowledge:'' @ newline
          @ ''- [auth] use jwt'' @ newline @ newline
          @ ''Active Project: proj (branch: main)'' @ newline
          @ ''</tribe-context>''))"
  by code_simp

lemma buildContext_short_prompt:
  "fst (buildContext scenario_upstream fresh_state ''hi'' Standard noon)
     = Inr (Some (''<tribe-context>'' @ newline
          @ ''Recent Activity:'' @ newline
          @ ''- 16m ago: claude on proj (12m), branch: main'' @ newline @ newline
          @ ''Active Project: proj (branch: main)'' @ newline
          @ ''</tribe-context>''))"
  "fst (buildContext scenario_upstream fresh_state ''how do I implement authentication''
          Minimal noon)
     = fst (buildContext scenario_upstream fresh_state ''hi'' Standard noon)"
  by code_simp+

lemma withTimeout_run_ok:
  "\<exists>r. withTimeout (run ex args t j False) ms fb = Inr r"
  by (simp add: withTimeout_def run_def Let_def split: exec_outcome.split)







section \<open>The fuel of the JSON parser\<close>


lemma length_skip_ws: "length (skip_ws s) \<le> length s"
  by (simp add: skip_ws_def length_dropWhile_le)

lemma scan_escape_shorter: "scan_escape cs = Some (d, rest) \<Longrightarrow> length rest < length cs"
  by (auto simp: scan_escape_def split: list.splits option.splits if_splits)

lemma scan_string_shorter: "scan_string acc s = Some (k, r) \<Longrightarrow> length r < length s"
proof (induction acc s rule: scan_string.induct)
  case (1 acc)
  then show ?case by simp
next
  case (2 acc c cs)
  show ?case
  proof (cases "c = CHR 0x22")
    case True
    with "2.prems" show ?thesis by simp
  next
    case nq: False
    show ?thesis
    proof (cases "c = CHR 0x5C")
      case bs: True
      from "2.prems" nq bs obtain d rest where
        e: "scan_escape cs = Some (d, rest)" and s: "scan_string (d # acc) rest = Some (k, r)"
        by (simp split: option.splits prod.splits)
      from "2.IH"(1)[OF nq bs e refl s] scan_escape_shorter[OF e]
      show ?thesis by simp
    next
      case False
      from "2.prems" nq False have lo: "\<not> (of_char c :: nat) < 32"
        and s: "scan_string (c # acc) cs = Some (k, r)"
        by (simp_all split: if_splits)
      from "2.IH"(2)[OF nq False lo s] show ?thesis by simp
    qed
  qed
qed

lemma scan_digits_shorter: "scan_digits s = Some (ds, r) \<Longrightarrow> length r \<le> length s"
  by (auto simp: scan_digits_def Let_def length_dropWhile_le split: if_splits)

lemma scan_int_part_shorter: "scan_int_part s = Some (ds, r) \<Longrightarrow> length r < length s"
  by (auto simp: scan_int_part_def length_dropWhile_le less_Suc_eq_le split: list.splits if_splits)


lemma scan_frac_shorter: "scan_frac s = Some (ds, r) \<Longrightarrow> length r \<le> length s"
proof (cases s)
  case Nil
  then show "scan_frac s = Some (ds, r) \<Longrightarrow> length r \<le> length s"
    by (simp add: scan_frac_def)
next
  case (Cons c cs)
  assume a: "scan_frac s = Some (ds, r)"
  show "length r \<le> length s"
  proof (cases "c = CHR ''.''")
    case True
    with a Cons obtain d where "scan_digits cs = Some (d, r)"
      by (auto simp: scan_frac_def)
    from scan_digits_shorter[OF this] Cons show ?thesis by simp
  next
    case False
    with a Cons show ?thesis by (simp add: scan_frac_def)
  qed
qed

lemma scan_exp_shorter: "scan_exp s = Some (ds, r) \<Longrightarrow> length r \<le> length s"
proof (cases s)
  case Nil
  then show "scan_exp s = Some (ds, r) \<Longrightarrow> length r \<le> length s"
    by (simp add: scan_exp_def)
next
  case (Cons c cs)
  assume a: "scan_exp s = Some (ds, r)"
  show "length r \<le> length s"
  proof (cases "c = CHR ''e'' \<or> c = CHR ''E''")
    case False
    with a Cons show ?thesis by (simp add: scan_exp_def)
  next
    case e: True
    show ?thesis
    proof (cases cs)
      case Nil
      with a Cons e show ?thesis by (simp add: scan_exp_def)
    next
      case (Cons g cs')
      show ?thesis
      proof (cases "g = CHR ''+'' \<or> g = CHR ''-''")
        case True
        with a \<open>s = c # cs\<close> Cons e obtain d where "scan_digits cs' = Some (d, r)"
          by (auto simp: scan_exp_def)
        from scan_digits_shorter[OF this] \<open>s = c # cs\<close> Cons show ?thesis by simp
      next
        case False
        with a \<open>s = c # cs\<close> Cons e obtain d where "scan_digits cs = Some (d, r)"
          by (auto simp: scan_exp_def)
        from scan_digits_shorter[OF this] \<open>s = c # cs\<close> show ?thesis by simp
      qed
    qed
  qed
qed

lemma scan_number_shorter: "scan_number s = Some (l, r) \<Longrightarrow> length r < length s"
proof -
  assume a: "scan_number s = Some (l, r)"
  define s1 where "s1 = snd (case s of [] \<Rightarrow> ([], s)
                        | c # cs \<Rightarrow> if c = CHR ''-'' then ([c], cs) else ([], s))"
  have s1: "length s1 \<le> length s" by (auto simp: s1_def split: list.split)
  from a obtain ip s2 where i: "scan_int_part s1 = Some (ip, s2)"
    by (auto simp: scan_number_def s1_def Let_def split_beta split: option.splits)
  with a obtain fp s3 where f: "scan_frac s2 = Some (fp, s3)"
    by (auto simp: scan_number_def s1_def[symmetric] Let_def split_beta split: option.splits)
  with a i obtain ep where e: "scan_exp s3 = Some (ep, r)"
    by (auto simp: scan_number_def s1_def[symmetric] Let_def split_beta split: option.splits)
  from scan_int_part_shorter[OF i] scan_frac_shorter[OF f] scan_exp_shorter[OF e] s1
  show ?thesis by simp
qed

lemma drop_shorter: "take n s = t \<Longrightarrow> t \<noteq> [] \<Longrightarrow> length (drop n s) < length s"
  by (cases n) auto

lemma parse_scalar_shorter: "parse_scalar s = Some (v, r) \<Longrightarrow> length r < length s"
proof -
  assume a: "parse_scalar s = Some (v, r)"
  show ?thesis
  proof (cases "take 4 s = ''true''")
    case True
    with a have "r = drop 4 s" by (simp add: parse_scalar_def)
    with drop_shorter[OF True] show ?thesis by simp
  next
    case nt: False
    show ?thesis
    proof (cases "take 5 s = ''false''")
      case True
      with a nt have "r = drop 5 s" by (simp add: parse_scalar_def)
      with drop_shorter[OF True] show ?thesis by simp
    next
      case nf: False
      show ?thesis
      proof (cases "take 4 s = ''null''")
        case True
        with a nt nf have "r = drop 4 s" by (simp add: parse_scalar_def)
        with drop_shorter[OF True] show ?thesis by simp
      next
        case False
        with a nt nf obtain l where "scan_number s = Some (l, r)"
          by (auto simp: parse_scalar_def)
        then show ?thesis by (rule scan_number_shorter)
      qed
    qed
  qed
qed


lemma skip_ws_Cons: "skip_ws s = c # r \<Longrightarrow> Suc (length r) \<le> length s"
  using length_skip_ws[of s] by simp

lemma fuel_pred: "length r < length s \<Longrightarrow> length s - length r \<le> m \<Longrightarrow> \<exists>m'. m = Suc m'"
  by (cases m) auto

lemma parse_value_step:
  assumes IHe: "\<And>acc s v r. parse_elems n acc s = Some (v, r) \<Longrightarrow>
              length r < length s \<and> (\<forall>m. length s - length r \<le> m \<longrightarrow> parse_elems m acc s = Some (v, r))"
    and IHm: "\<And>acc s v r. parse_members n acc s = Some (v, r) \<Longrightarrow>
              length r < length s \<and> (\<forall>m. length s - length r \<le> m \<longrightarrow> parse_members m acc s = Some (v, r))"
    and pv: "parse_value (Suc n) s = Some (v, r)"
  shows "length r < length s \<and> (\<forall>m. length s - length r \<le> m \<longrightarrow> parse_value m s = Some (v, r))"
proof -
  from pv obtain c r0 where t: "skip_ws s = c # r0"
    by (cases "skip_ws s") simp_all
  note ls = skip_ws_Cons[OF t]
  show ?thesis
  proof (cases "c = CHR ''['' \<or> c = CHR ''{''")
    case False
    then have indep: "parse_value (Suc k) s = parse_value (Suc n) s" for k
      using t by simp
    have "length r < length s"
    proof (cases "c = CHR 0x22")
      case True
      with pv t False obtain str where "scan_string [] r0 = Some (str, r)"
        by auto
      from scan_string_shorter[OF this] ls show ?thesis by simp
    next
      case nq: False
      with pv t False have "parse_scalar (c # r0) = Some (v, r)" by simp
      from parse_scalar_shorter[OF this] ls show ?thesis by simp
    qed
    moreover have "parse_value m s = Some (v, r)" if "length s - length r \<le> m" for m
    proof -
      from fuel_pred[OF \<open>length r < length s\<close> that] obtain m' where "m = Suc m'" by blast
      with indep[of m'] pv show ?thesis by simp
    qed
    ultimately show ?thesis by blast
  next
    case br: True
    from pv t br obtain c' r' where u: "skip_ws r0 = c' # r'"
      by (cases "skip_ws r0") auto
    note lu = skip_ws_Cons[OF u]
    show ?thesis
    proof (cases "(c = CHR ''['' \<and> c' = CHR '']'') \<or> (c = CHR ''{'' \<and> c' = CHR ''}'')")
      case True
      then have indep: "parse_value (Suc k) s = parse_value (Suc n) s" for k
        using t u by auto
      from pv t u True have "r = r'" by auto
      with ls lu have lr: "length r < length s" by simp
      moreover have "parse_value m s = Some (v, r)" if "length s - length r \<le> m" for m
      proof -
        from fuel_pred[OF lr that] obtain m' where "m = Suc m'" by blast
        with indep[of m'] pv show ?thesis by simp
      qed
      ultimately show ?thesis by blast
    next
      case open': False
      show ?thesis
      proof (cases "c = CHR ''[''")
        case True
        with open' have nc: "c' \<noteq> CHR '']''" by simp
        from pv t u True nc have pe: "parse_elems n [] r0 = Some (v, r)" by simp
        from IHe[OF pe] have lr0: "length r < length r0"
          and st: "\<And>m. length r0 - length r \<le> m \<Longrightarrow> parse_elems m [] r0 = Some (v, r)"
          by blast+
        from lr0 ls have lr: "length r < length s" by simp
        moreover have "parse_value m s = Some (v, r)" if "length s - length r \<le> m" for m
        proof -
          from fuel_pred[OF lr that] obtain m' where m: "m = Suc m'" by blast
          with that ls have "length r0 - length r \<le> m'" by simp
          from st[OF this] show ?thesis using m t u True nc by simp
        qed
        ultimately show ?thesis by blast
      next
        case False
        with br have ob: "c = CHR ''{''" by simp
        with open' have nc: "c' \<noteq> CHR ''}''" by simp
        from pv t u ob nc have pm: "parse_members n [] r0 = Some (v, r)" by simp
        from IHm[OF pm] have lr0: "length r < length r0"
          and st: "\<And>m. length r0 - length r \<le> m \<Longrightarrow> parse_members m [] r0 = Some (v, r)"
          by blast+
        from lr0 ls have lr: "length r < length s" by simp
        moreover have "parse_value m s = Some (v, r)" if "length s - length r \<le> m" for m
        proof -
          from fuel_pred[OF lr that] obtain m' where m: "m = Suc m'" by blast
          with that ls have "length r0 - length r \<le> m'" by simp
          from st[OF this] show ?thesis using m t u ob nc by simp
        qed
        ultimately show ?thesis by blast
      qed
    qed
  qed
qed


lemma parse_elems_step:
  assumes IHv: "\<And>s v r. parse_value n s = Some (v, r) \<Longrightarrow>
              length r < length s \<and> (\<forall>m. length s - length r \<le> m \<longrightarrow> parse_value m s = Some (v, r))"
    and IHe: "\<And>acc s v r. parse_elems n acc s = Some (v, r) \<Longrightarrow>
              length r < length s \<and> (\<forall>m. length s - length r \<le> m \<longrightarrow> parse_elems m acc s = Some (v, r))"
    and pe: "parse_elems (Suc n) acc s = Some (v, r)"
  shows "length r < length s \<and> (\<forall>m. length s - length r \<le> m \<longrightarrow> parse_elems m acc s = Some (v, r))"
proof -
  from pe obtain v1 r1 where pv: "parse_value n s = Some (v1, r1)"
    by (cases "parse_value n s") auto
  from IHv[OF pv] have l1: "length r1 < length s"
    and stv: "\<And>m. length s - length r1 \<le> m \<Longrightarrow> parse_value m s = Some (v1, r1)"
    by blast+
  from pe pv obtain c r' where u: "skip_ws r1 = c # r'"
    by (cases "skip_ws r1") simp_all
  note lu = skip_ws_Cons[OF u]
  show ?thesis
  proof (cases "c = CHR '',''")
    case True
    with pe pv u have pe': "parse_elems n (v1 # acc) r' = Some (v, r)" by simp
    from IHe[OF pe'] have l2: "length r < length r'"
      and ste: "\<And>m. length r' - length r \<le> m \<Longrightarrow> parse_elems m (v1 # acc) r' = Some (v, r)"
      by blast+
    from l1 l2 lu have lr: "length r < length s" by simp
    moreover have "parse_elems m acc s = Some (v, r)" if "length s - length r \<le> m" for m
    proof -
      from fuel_pred[OF lr that] obtain m' where m: "m = Suc m'" by blast
      with that l1 l2 lu have "length s - length r1 \<le> m'" "length r' - length r \<le> m'"
        by simp_all
      from stv[OF this(1)] ste[OF this(2)] show ?thesis using m u True by simp
    qed
    ultimately show ?thesis by blast
  next
    case nc: False
    with pe pv u have cl: "c = CHR '']''" and res: "v = JArr (rev (v1 # acc))" "r = r'"
      by (auto split: if_splits)
    from l1 lu res have lr: "length r < length s" by simp
    moreover have "parse_elems m acc s = Some (v, r)" if "length s - length r \<le> m" for m
    proof -
      from fuel_pred[OF lr that] obtain m' where m: "m = Suc m'" by blast
      with that l1 lu res have "length s - length r1 \<le> m'" by simp
      from stv[OF this] show ?thesis using m u nc cl res by simp
    qed
    ultimately show ?thesis by blast
  qed
qed

lemma parse_members_step:
  assumes IHv: "\<And>s v r. parse_value n s = Some (v, r) \<Longrightarrow>
              length r < length s \<and> (\<forall>m. length s - length r \<le> m \<longrightarrow> parse_value m s = Some (v, r))"
    and IHm: "\<And>acc s v r. parse_members n acc s = Some (v, r) \<Longrightarrow>
              length r < length s \<and> (\<forall>m. length s - length r \<le> m \<longrightarrow> parse_members m acc s = Some (v, r))"
    and pm: "parse_members (Suc n) acc s = Some (v, r)"
  shows "length r < length s \<and> (\<forall>m. length s - length r \<le> m \<longrightarrow> parse_members m acc s = Some (v, r))"
proof -
  from pm obtain q r0 where t: "skip_ws s = q # r0"
    by (cases "skip_ws s") simp_all
  from pm t have q: "q = CHR 0x22" by (auto split: if_splits)
  from pm t q obtain k r1 where ss: "scan_string [] r0 = Some (k, r1)"
    by (cases "scan_string [] r0") auto
  from pm t q ss obtain c r2 where u: "skip_ws r1 = c # r2"
    by (cases "skip_ws r1") simp_all
  from pm t q ss u have c: "c = CHR '':''" by (auto split: if_splits)
  from pm t q ss u c obtain v1 r3 where pv: "parse_value n r2 = Some (v1, r3)"
    by (cases "parse_value n r2") auto
  from pm t q ss u c pv obtain d r4 where w: "skip_ws r3 = d # r4"
    by (cases "skip_ws r3") simp_all
  from IHv[OF pv] have l3: "length r3 < length r2"
    and stv: "\<And>m. length r2 - length r3 \<le> m \<Longrightarrow> parse_value m r2 = Some (v1, r3)"
    by blast+
  note l0 = skip_ws_Cons[OF t] and l1 = scan_string_shorter[OF ss]
    and l2 = skip_ws_Cons[OF u] and l4 = skip_ws_Cons[OF w]
  have unfold: "parse_members (Suc k') acc s =
        (if d = CHR '','' then parse_members k' (AList.update k v1 acc) r4
         else if d = CHR ''}'' then Some (JObj (AList.update k v1 acc), r4)
         else None)" if "parse_value k' r2 = Some (v1, r3)" for k'
    using t q ss u c w that by simp
  show ?thesis
  proof (cases "d = CHR '',''")
    case True
    with pm unfold[OF pv] have pm': "parse_members n (AList.update k v1 acc) r4 = Some (v, r)"
      by simp
    from IHm[OF pm'] have l5: "length r < length r4"
      and stm: "\<And>m. length r4 - length r \<le> m \<Longrightarrow>
                  parse_members m (AList.update k v1 acc) r4 = Some (v, r)"
      by blast+
    from l0 l1 l2 l3 l4 l5 have lr: "length r < length s" by simp
    moreover have "parse_members m acc s = Some (v, r)" if "length s - length r \<le> m" for m
    proof -
      from fuel_pred[OF lr that] obtain m' where m: "m = Suc m'" by blast
      with that l0 l1 l2 l3 l4 l5 have "length r2 - length r3 \<le> m'" "length r4 - length r \<le> m'"
        by simp_all
      from unfold[OF stv[OF this(1)]] stm[OF this(2)] show ?thesis using m True by simp
    qed
    ultimately show ?thesis by blast
  next
    case nc: False
    with pm unfold[OF pv] have cl: "d = CHR ''}''"
      and res: "v = JObj (AList.update k v1 acc)" "r = r4"
      by (auto split: if_splits)
    from l0 l1 l2 l3 l4 res have lr: "length r < length s" by simp
    moreover have "parse_members m acc s = Some (v, r)" if "length s - length r \<le> m" for m
    proof -
      from fuel_pred[OF lr that] obtain m' where m: "m = Suc m'" by blast
      with that l0 l1 l2 l3 l4 res have "length r2 - length r3 \<le> m'" by simp
      from unfold[OF stv[OF this]] show ?thesis using m nc cl res by simp
    qed
    ultimately show ?thesis by blast
  qed
qed

lemma parse_fuel:
  "(\<forall>s v r. parse_value n s = Some (v, r) \<longrightarrow>
      length r < length s \<and> (\<forall>m. length s - length r \<le> m \<longrightarrow> parse_value m s = Some (v, r)))
   \<and> (\<forall>acc s v r. parse_elems n acc s = Some (v, r) \<longrightarrow>
      length r < length s \<and> (\<forall>m. length s - length r \<le> m \<longrightarrow> parse_elems m acc s = Some (v, r)))
   \<and> (\<forall>acc s v r. parse_members n acc s = Some (v, r) \<longrightarrow>
      length r < length s \<and> (\<forall>m. length s - length r \<le> m \<longrightarrow> parse_members m acc s = Some (v, r)))"
proof (induction n)
  case 0
  show ?case by simp
next
  case (Suc n)
  then have IHv: "\<And>s v r. parse_value n s = Some (v, r) \<Longrightarrow>
              length r < length s \<and> (\<forall>m. length s - length r \<le> m \<longrightarrow> parse_value m s = Some (v, r))"
    and IHe: "\<And>acc s v r. parse_elems n acc s = Some (v, r) \<Longrightarrow>
              length r < length s \<and> (\<forall>m. length s - length r \<le> m \<longrightarrow> parse_elems m acc s = Some (v, r))"
    and IHm: "\<And>acc s v r. parse_members n acc s = Some (v, r) \<Longrightarrow>
              length r < length s \<and> (\<forall>m. length s - length r \<le> m \<longrightarrow> parse_members m acc s = Some (v, r))"
    by blast+
  show ?case
    using parse_value_step[OF IHe IHm] parse_elems_step[OF IHv IHe] parse_members_step[OF IHv IHm]
    by blast
qed

text \<open>
  The fuel of \<open>JSON_parse\<close> is enough: whatever \<open>parse_value\<close> returns with some fuel,
  it returns with the fuel that \<open>JSON_parse\<close> gives it. A text that \<open>JSON_parse\<close>
  rejects is rejected for its syntax.
\<close>

lemma JSON_parse_fuel_adequate:
  assumes "parse_value n s = Some (v, r)"
  shows "parse_value (2 * length s + 2) s = Some (v, r)"
proof -
  from parse_fuel[of n] assms
  have st: "\<And>m. length s - length r \<le> m \<Longrightarrow> parse_value m s = Some (v, r)" by blast
  show ?thesis by (rule st) simp
qed

section \<open>Well-formed caches\<close>


text \<open>
  The hypothesis \<^const>\<open>wf_cache\<close> holds of a new cache over well-formed files and is
  kept by every operation.
\<close>

lemma wf_new_cache:
  "(case d ns of Parsed p \<Rightarrow> distinct (map fst (entries p)) | _ \<Rightarrow> True)
     \<Longrightarrow> wf_cache (new_cache d) ns"
  by (simp add: wf_cache_def new_cache_def)

lemma wf_set_entry: "wf_cache c ns \<Longrightarrow> wf_cache (set_entry md5hex c ns' key v now) ns"
  by (simp add: wf_cache_def set_entry_def scheduleL2Write_def Let_def distinct_update)

lemma wf_get: "wf_cache c ns \<Longrightarrow> wf_cache (snd (get md5hex c ns' key now1 now2 now3)) ns"
  by (auto simp: wf_cache_def get_def l2Get_def loadL2_def Let_def distinct_update distinct_delete
      split: option.split disk_file.split)

lemma distinct_invalidate_loop:
  "distinct (map fst m) \<Longrightarrow>
     distinct (map fst (foldl (\<lambda>m key. if startsWith key p then AList.delete key m else m) m ks))"
  by (induction ks arbitrary: m) (simp_all add: distinct_delete)

lemma wf_invalidate: "wf_cache c ns \<Longrightarrow> wf_cache (invalidate c ns' rm_ok) ns"
  by (auto simp: wf_cache_def invalidate_def Let_def distinct_invalidate_loop
      split: disk_file.split)

lemma foldl_pruneExpired_distinct:
  "distinct (map fst (entries ex))
     \<Longrightarrow> distinct (map fst (entries (foldl (pruneExpired now) ex ys)))"
  by (induction ys arbitrary: ex) (simp_all add: pruneExpired_def distinct_delete)

lemma flushedContent_distinct:
  assumes "wf_cache c ns"
  shows "distinct (map fst (entries (flushedContent c ns now)))"
proof -
  have "distinct (map fst (entries (case disk c ns of
                        NoFile \<Rightarrow> \<lparr>version = 1, entries = []\<rparr>
                      | Unparsable \<Rightarrow> \<lparr>version = 1, entries = []\<rparr>
                      | Parsed p \<Rightarrow> if version p \<noteq> 1 then \<lparr>version = 1, entries = []\<rparr> else p)))"
    using assms by (auto simp: wf_cache_def split: disk_file.split)
  then show ?thesis
    unfolding flushedContent_def Let_def
    by (intro foldl_pruneExpired_distinct foldl_mergeL1_distinct)
qed

lemma wf_flushL2:
  assumes "wf_cache c ns" "wf_cache c ns'"
  shows "wf_cache (flushL2 c ns' now write_ok) ns"
  using assms flushedContent_distinct[OF assms(2), of now]
  by (auto simp: wf_cache_def flushL2_def split: disk_file.split)

lemma wf_l2TimerFired:
  assumes "wf_cache c ns" "wf_cache c ns'"
  shows "wf_cache (l2TimerFired c ns' now write_ok) ns"
proof -
  have "wf_cache (c\<lparr>l2Timers := t, l2Dirty := d\<rparr>) n = wf_cache c n" for t d n
    by (simp add: wf_cache_def)
  moreover have "wf_cache (c\<lparr>l2Timers := t\<rparr>) n = wf_cache c n" for t n
    by (simp add: wf_cache_def)
  ultimately show ?thesis
    using assms by (simp add: l2TimerFired_def Let_def wf_flushL2)
qed

end
